theory Spec2Isabelle
  imports Main
begin

section \<open>The element type \<open>T\<close> and the outcome of a call\<close>

text \<open>
  \<^verbatim>\<open>vector.h\<close> is a template over the element type \<open>T\<close>. What the container needs
  of \<open>T\<close> is collected in a record: the two type traits the \<^verbatim>\<open>if constexpr\<close> tests
  read, the value \<open>T()\<close>, the state a moved-from object is left in, and which of
  \<open>T\<close>'s operations throw. An operation of \<open>T\<close> is identified by its kind, by the
  number of fallible events that happened before it (the clock) and by the value it reads,
  so that any throwing behaviour of a run (the third copy throws, copying the value 13
  throws) is some \<open>throws\<close> function. An operation that throws leaves its operands as
  they were. \<open>bad_alloc\<close> says whether \<^verbatim>\<open>operator new\<close> fails for a request
  of \<open>n\<close> elements at a clock value.

  Sizes and capacities are \<^verbatim>\<open>size_t\<close> in the source. They are modelled as \<open>nat\<close>:
  a size is bounded by the capacity of a block that has been allocated, so
  \<^verbatim>\<open>size_ * 2\<close> does not wrap.
\<close>

datatype op_kind =
  Construct | CopyConstruct | MoveConstruct | ValueConstruct | CopyAssign | MoveAssign

record 'a T_type =
  is_nothrow_move_constructible :: bool
  is_copy_constructible :: bool
  value_init :: 'a
  moved_from :: "'a \<Rightarrow> 'a"
  throws :: "op_kind \<Rightarrow> nat \<Rightarrow> 'a \<Rightarrow> bool"
  bad_alloc :: "nat \<Rightarrow> nat \<Rightarrow> bool"

text \<open>
  A call returns, or leaves by an exception (with the state it leaves behind), or has
  undefined behaviour (a failed \<^verbatim>\<open>assert\<close> of the source, a read of a raw slot, an
  \<^verbatim>\<open>operator delete\<close> of a pointer that \<^verbatim>\<open>operator new\<close> did not return).
\<close>

datatype ('r, 's) outcome = Returns 'r | Throws 's | Undefined

section \<open>RawMemory\<close>

text \<open>
  A block of raw memory is the list of its slots: \<open>None\<close> is an uninitialised slot,
  \<open>Some x\<close> a slot holding a live object of value \<open>x\<close>. The null pointer is the block
  with no slot. The members \<^verbatim>\<open>buffer_\<close>, \<^verbatim>\<open>capacity_\<close>, \<^verbatim>\<open>data_\<close> and \<^verbatim>\<open>size_\<close>
  are written \<open>buffer_m\<close>, \<open>capacity_m\<close>, \<open>data_m\<close> and \<open>size_m\<close>.
\<close>

type_synonym 'a slot = "'a option"

record 'a RawMemory =
  buffer_m :: "'a slot list"
  capacity_m :: nat

definition Allocate :: "nat \<Rightarrow> 'a slot list" where
  "Allocate n = (if n \<noteq> 0 then replicate n None else [])"

text \<open>\<^verbatim>\<open>RawMemory() = default\<close> and \<^verbatim>\<open>explicit RawMemory(size_t capacity)\<close>.\<close>

definition RawMemory_default :: "'a RawMemory" where
  "RawMemory_default = \<lparr>buffer_m = [], capacity_m = 0\<rparr>"

definition RawMemory_new ::
  "'a T_type \<Rightarrow> nat \<Rightarrow> nat \<Rightarrow> (nat \<times> 'a RawMemory, nat) outcome" where
  "RawMemory_new T clk capacity =
     (if capacity \<noteq> 0 \<and> bad_alloc T clk capacity then Throws (Suc clk)
      else Returns (Suc clk, \<lparr>buffer_m = Allocate capacity, capacity_m = capacity\<rparr>))"

section \<open>Operations on slots and the library algorithms the source calls\<close>

text \<open>Placement new: \<^verbatim>\<open>new (buf + i) T(...)\<close>, by the constructor of kind \<open>k\<close>.\<close>

definition construct_at ::
  "'a T_type \<Rightarrow> op_kind \<Rightarrow> nat \<Rightarrow> 'a slot list \<Rightarrow> nat \<Rightarrow> 'a
     \<Rightarrow> (nat \<times> 'a slot list, nat \<times> 'a slot list) outcome" where
  "construct_at T k clk buf i x =
     (if length buf \<le> i then Undefined
      else if throws T k clk x then Throws (Suc clk, buf)
      else Returns (Suc clk, buf[i := Some x]))"

text \<open>\<^verbatim>\<open>dst[d] = src[s]\<close> between two blocks; both slots hold live objects.\<close>

definition copy_assign ::
  "'a T_type \<Rightarrow> nat \<Rightarrow> 'a slot list \<Rightarrow> nat \<Rightarrow> 'a slot list \<Rightarrow> nat
     \<Rightarrow> (nat \<times> 'a slot list, nat \<times> 'a slot list) outcome" where
  "copy_assign T clk src s dst d =
     (if length src \<le> s \<or> length dst \<le> d then Undefined
      else case (src ! s, dst ! d) of
        (Some x, Some y) \<Rightarrow>
          if throws T CopyAssign clk x then Throws (Suc clk, dst)
          else Returns (Suc clk, dst[d := Some x])
      | _ \<Rightarrow> Undefined)"

text \<open>\<^verbatim>\<open>buf[d] = std::move(buf[s])\<close> inside one block.\<close>

definition move_assign ::
  "'a T_type \<Rightarrow> nat \<Rightarrow> 'a slot list \<Rightarrow> nat \<Rightarrow> nat
     \<Rightarrow> (nat \<times> 'a slot list, nat \<times> 'a slot list) outcome" where
  "move_assign T clk buf s d =
     (if length buf \<le> s \<or> length buf \<le> d then Undefined
      else case (buf ! s, buf ! d) of
        (Some x, Some y) \<Rightarrow>
          if throws T MoveAssign clk x then Throws (Suc clk, buf)
          else Returns (Suc clk, buf[d := Some x, s := Some (moved_from T x)])
      | _ \<Rightarrow> Undefined)"

text \<open>\<^verbatim>\<open>std::destroy_at\<close> and \<^verbatim>\<open>std::destroy_n\<close>; destructors do not throw.\<close>

definition destroy_at :: "'a slot list \<Rightarrow> nat \<Rightarrow> 'a slot list option" where
  "destroy_at buf i =
     (if length buf \<le> i then None
      else case buf ! i of None \<Rightarrow> None | Some x \<Rightarrow> Some (buf[i := None]))"

fun destroy_n :: "'a slot list \<Rightarrow> nat \<Rightarrow> nat \<Rightarrow> 'a slot list option" where
  "destroy_n buf first 0 = Some buf"
| "destroy_n buf first (Suc n) =
     (case destroy_at buf first of
        None \<Rightarrow> None
      | Some buf' \<Rightarrow> destroy_n buf' (Suc first) n)"

text \<open>
  \<^verbatim>\<open>std::uninitialized_copy_n(src + first, n, dst + d)\<close>: copy-constructs in index
  order; when a copy throws, the objects already constructed in \<open>dst\<close> are destroyed and
  the exception goes on.
\<close>

fun uninitialized_copy_n ::
  "'a T_type \<Rightarrow> nat \<Rightarrow> 'a slot list \<Rightarrow> nat \<Rightarrow> nat \<Rightarrow> 'a slot list \<Rightarrow> nat
     \<Rightarrow> (nat \<times> 'a slot list, nat \<times> 'a slot list) outcome" where
  "uninitialized_copy_n T clk src first 0 dst d = Returns (clk, dst)"
| "uninitialized_copy_n T clk src first (Suc n) dst d =
     (if length src \<le> first then Undefined
      else case src ! first of
        None \<Rightarrow> Undefined
      | Some x \<Rightarrow>
         (case construct_at T CopyConstruct clk dst d x of
            Undefined \<Rightarrow> Undefined
          | Throws s \<Rightarrow> Throws s
          | Returns (clk', dst') \<Rightarrow>
             (case uninitialized_copy_n T clk' src (Suc first) n dst' (Suc d) of
                Throws (clk'', dst'') \<Rightarrow> Throws (clk'', dst''[d := None])
              | r \<Rightarrow> r)))"

text \<open>
  \<^verbatim>\<open>std::uninitialized_move_n(src + first, n, dst + d)\<close>: move-constructs in index
  order, leaving each source in its moved-from state; when a move throws, the objects
  constructed in \<open>dst\<close> are destroyed, and the sources already moved from stay so.
\<close>

fun uninitialized_move_n ::
  "'a T_type \<Rightarrow> nat \<Rightarrow> 'a slot list \<Rightarrow> nat \<Rightarrow> nat \<Rightarrow> 'a slot list \<Rightarrow> nat
     \<Rightarrow> (nat \<times> 'a slot list \<times> 'a slot list, nat \<times> 'a slot list \<times> 'a slot list) outcome" where
  "uninitialized_move_n T clk src first 0 dst d = Returns (clk, src, dst)"
| "uninitialized_move_n T clk src first (Suc n) dst d =
     (if length src \<le> first then Undefined
      else case src ! first of
        None \<Rightarrow> Undefined
      | Some x \<Rightarrow>
         (case construct_at T MoveConstruct clk dst d x of
            Undefined \<Rightarrow> Undefined
          | Throws (clk', dst') \<Rightarrow> Throws (clk', src, dst')
          | Returns (clk', dst') \<Rightarrow>
             (case uninitialized_move_n T clk' (src[first := Some (moved_from T x)])
                     (Suc first) n dst' (Suc d) of
                Throws (clk'', src'', dst'') \<Rightarrow> Throws (clk'', src'', dst''[d := None])
              | r \<Rightarrow> r)))"

text \<open>
  \<^verbatim>\<open>std::uninitialized_value_construct_n(buf + first, n)\<close>: constructs \<open>T()\<close> in each
  slot; when a construction throws, the objects already constructed are destroyed.
\<close>

fun uninitialized_value_construct_n ::
  "'a T_type \<Rightarrow> nat \<Rightarrow> 'a slot list \<Rightarrow> nat \<Rightarrow> nat
     \<Rightarrow> (nat \<times> 'a slot list, nat \<times> 'a slot list) outcome" where
  "uninitialized_value_construct_n T clk buf first 0 = Returns (clk, buf)"
| "uninitialized_value_construct_n T clk buf first (Suc n) =
     (case construct_at T ValueConstruct clk buf first (value_init T) of
        Undefined \<Rightarrow> Undefined
      | Throws s \<Rightarrow> Throws s
      | Returns (clk', buf') \<Rightarrow>
         (case uninitialized_value_construct_n T clk' buf' (Suc first) n of
            Throws (clk'', buf'') \<Rightarrow> Throws (clk'', buf''[first := None])
          | r \<Rightarrow> r))"

text \<open>
  \<^verbatim>\<open>std::copy(src + first, src + last, dst + d)\<close> (copy assignment, front to back,
  between two blocks), \<^verbatim>\<open>std::move(buf + first, buf + last, buf + d)\<close> (move
  assignment, front to back, inside one block) and
  \<^verbatim>\<open>std::move_backward(buf + first, buf + last, buf + d_last)\<close> (move assignment, back
  to front, inside one block). Each is a loop over the \<open>last - first\<close> elements of the
  range (\<open>lst\<close> is the source's \<^verbatim>\<open>last\<close>); a range with \<open>lst < first\<close> is not a range.
\<close>

fun copy_loop ::
  "'a T_type \<Rightarrow> nat \<Rightarrow> 'a slot list \<Rightarrow> nat \<Rightarrow> nat \<Rightarrow> 'a slot list \<Rightarrow> nat
     \<Rightarrow> (nat \<times> 'a slot list, nat \<times> 'a slot list) outcome" where
  "copy_loop T clk src first 0 dst d = Returns (clk, dst)"
| "copy_loop T clk src first (Suc n) dst d =
     (case copy_assign T clk src first dst d of
        Returns (clk', dst') \<Rightarrow> copy_loop T clk' src (Suc first) n dst' (Suc d)
      | r \<Rightarrow> r)"

definition std_copy ::
  "'a T_type \<Rightarrow> nat \<Rightarrow> 'a slot list \<Rightarrow> nat \<Rightarrow> nat \<Rightarrow> 'a slot list \<Rightarrow> nat
     \<Rightarrow> (nat \<times> 'a slot list, nat \<times> 'a slot list) outcome" where
  "std_copy T clk src first lst dst d =
     (if lst < first then Undefined else copy_loop T clk src first (lst - first) dst d)"

fun move_loop ::
  "'a T_type \<Rightarrow> nat \<Rightarrow> 'a slot list \<Rightarrow> nat \<Rightarrow> nat \<Rightarrow> nat
     \<Rightarrow> (nat \<times> 'a slot list, nat \<times> 'a slot list) outcome" where
  "move_loop T clk buf first 0 d = Returns (clk, buf)"
| "move_loop T clk buf first (Suc n) d =
     (case move_assign T clk buf first d of
        Returns (clk', buf') \<Rightarrow> move_loop T clk' buf' (Suc first) n (Suc d)
      | r \<Rightarrow> r)"

definition std_move ::
  "'a T_type \<Rightarrow> nat \<Rightarrow> 'a slot list \<Rightarrow> nat \<Rightarrow> nat \<Rightarrow> nat
     \<Rightarrow> (nat \<times> 'a slot list, nat \<times> 'a slot list) outcome" where
  "std_move T clk buf first lst d =
     (if lst < first then Undefined else move_loop T clk buf first (lst - first) d)"

fun move_backward_loop ::
  "'a T_type \<Rightarrow> nat \<Rightarrow> 'a slot list \<Rightarrow> nat \<Rightarrow> nat \<Rightarrow> nat
     \<Rightarrow> (nat \<times> 'a slot list, nat \<times> 'a slot list) outcome" where
  "move_backward_loop T clk buf first 0 d_last = Returns (clk, buf)"
| "move_backward_loop T clk buf first (Suc n) d_last =
     (if d_last = 0 then Undefined
      else case move_assign T clk buf (first + n) (d_last - 1) of
        Returns (clk', buf') \<Rightarrow> move_backward_loop T clk' buf' first n (d_last - 1)
      | r \<Rightarrow> r)"

definition std_move_backward ::
  "'a T_type \<Rightarrow> nat \<Rightarrow> 'a slot list \<Rightarrow> nat \<Rightarrow> nat \<Rightarrow> nat
     \<Rightarrow> (nat \<times> 'a slot list, nat \<times> 'a slot list) outcome" where
  "std_move_backward T clk buf first lst d_last =
     (if lst < first then Undefined
      else move_backward_loop T clk buf first (lst - first) d_last)"

section \<open>Vector\<close>

record 'a Vector =
  data_m :: "'a RawMemory"
  size_m :: nat

definition Vector_default :: "'a Vector" where
  "Vector_default = \<lparr>data_m = RawMemory_default, size_m = 0\<rparr>"

definition Size :: "'a Vector \<Rightarrow> nat" where
  "Size v = size_m v"

definition Capacity :: "'a Vector \<Rightarrow> nat" where
  "Capacity v = capacity_m (data_m v)"

text \<open>The slots behind \<^verbatim>\<open>data_.GetAddress()\<close>, and the vector with these slots rewritten.\<close>

definition GetAddress :: "'a Vector \<Rightarrow> 'a slot list" where
  "GetAddress v = buffer_m (data_m v)"

definition with_slots :: "'a Vector \<Rightarrow> 'a slot list \<Rightarrow> 'a Vector" where
  "with_slots v buf = v\<lparr>data_m := (data_m v)\<lparr>buffer_m := buf\<rparr>\<rparr>"

text \<open>
  The block that \<^verbatim>\<open>Reserve\<close>, \<^verbatim>\<open>PushBack\<close> and \<^verbatim>\<open>EmplaceBack\<close> share word for word:
  transfer the \<^verbatim>\<open>size_\<close> elements into \<^verbatim>\<open>new_data\<close> (by move if \<open>T\<close>'s move
  constructor is \<^verbatim>\<open>noexcept\<close> or \<open>T\<close> cannot be copied, by copy otherwise),
  \<^verbatim>\<open>destroy_n\<close> the old elements, \<^verbatim>\<open>data_.Swap(new_data)\<close>; the old block is
  released when \<^verbatim>\<open>new_data\<close> leaves scope. When the transfer throws, \<^verbatim>\<open>new_data\<close>
  is released and the vector keeps its block.
\<close>

definition transfer_and_swap ::
  "'a T_type \<Rightarrow> nat \<Rightarrow> 'a Vector \<Rightarrow> 'a RawMemory
     \<Rightarrow> (nat \<times> 'a Vector, nat \<times> 'a Vector) outcome" where
  "transfer_and_swap T clk v new_data =
     (if is_nothrow_move_constructible T \<or> \<not> is_copy_constructible T then
        (case uninitialized_move_n T clk (GetAddress v) 0 (size_m v) (buffer_m new_data) 0 of
           Undefined \<Rightarrow> Undefined
         | Throws (clk', src, dst) \<Rightarrow> Throws (clk', with_slots v src)
         | Returns (clk', src, dst) \<Rightarrow>
            (case destroy_n src 0 (size_m v) of
               None \<Rightarrow> Undefined
             | Some old \<Rightarrow> Returns (clk', v\<lparr>data_m := new_data\<lparr>buffer_m := dst\<rparr>\<rparr>)))
      else
        (case uninitialized_copy_n T clk (GetAddress v) 0 (size_m v) (buffer_m new_data) 0 of
           Undefined \<Rightarrow> Undefined
         | Throws (clk', dst) \<Rightarrow> Throws (clk', v)
         | Returns (clk', dst) \<Rightarrow>
            (case destroy_n (GetAddress v) 0 (size_m v) of
               None \<Rightarrow> Undefined
             | Some old \<Rightarrow> Returns (clk', v\<lparr>data_m := new_data\<lparr>buffer_m := dst\<rparr>\<rparr>))))"

fun Reserve ::
  "'a T_type \<Rightarrow> nat \<Rightarrow> nat \<times> 'a Vector \<Rightarrow> (nat \<times> 'a Vector, nat \<times> 'a Vector) outcome" where
  "Reserve T new_capacity (clk, v) =
       (if new_capacity \<le> Capacity v then Returns (clk, v)
        else (case RawMemory_new T clk new_capacity of
          Undefined \<Rightarrow> Undefined
        | Throws clk' \<Rightarrow> Throws (clk', v)
        | Returns (clk', new_data) \<Rightarrow> transfer_and_swap T clk' v new_data))"

fun Resize ::
  "'a T_type \<Rightarrow> nat \<Rightarrow> nat \<times> 'a Vector \<Rightarrow> (nat \<times> 'a Vector, nat \<times> 'a Vector) outcome" where
  "Resize T new_size (clk, v) =
       (if new_size < size_m v then
          (case destroy_n (GetAddress v) new_size (size_m v - new_size) of
             None \<Rightarrow> Undefined
           | Some buf \<Rightarrow> Returns (clk, (with_slots v buf)\<lparr>size_m := new_size\<rparr>))
        else
          (case (if Capacity v < new_size
                 then Reserve T (max (Capacity v * 2) new_size) (clk, v)
                 else Returns (clk, v)) of
             Undefined \<Rightarrow> Undefined
           | Throws t \<Rightarrow> Throws t
           | Returns (clk', v') \<Rightarrow>
              (case uninitialized_value_construct_n T clk' (GetAddress v') (size_m v')
                      (new_size - size_m v') of
                 Undefined \<Rightarrow> Undefined
               | Throws (clk'', buf) \<Rightarrow> Throws (clk'', with_slots v' buf)
               | Returns (clk'', buf) \<Rightarrow>
                   Returns (clk'', (with_slots v' buf)\<lparr>size_m := new_size\<rparr>))))"

text \<open>
  The \<^verbatim>\<open>if\<close> statement that \<^verbatim>\<open>PushBack\<close> (lines 407-426) and \<^verbatim>\<open>EmplaceBack\<close>
  (lines 439-454) share: with \<^verbatim>\<open>data_.Capacity() <= size_\<close> the new element is
  constructed at index \<^verbatim>\<open>size_\<close> of a new block of \<^verbatim>\<open>size_ == 0 ? 1 : size_ * 2\<close>
  slots and the old elements are transferred; otherwise it is constructed in the slot at
  \<^verbatim>\<open>size_\<close>. \<open>k\<close> is the constructor that builds the element and \<open>x\<close> the value
  it gets. \<^verbatim>\<open>size_\<close> is not changed here.
\<close>

fun construct_back ::
  "'a T_type \<Rightarrow> op_kind \<Rightarrow> 'a \<Rightarrow> nat \<times> 'a Vector
     \<Rightarrow> (nat \<times> 'a Vector, nat \<times> 'a Vector) outcome" where
  "construct_back T k x (clk, v) =
     (if Capacity v \<le> size_m v then
        (case RawMemory_new T clk (if size_m v = 0 then 1 else size_m v * 2) of
           Undefined \<Rightarrow> Undefined
         | Throws clk' \<Rightarrow> Throws (clk', v)
         | Returns (clk', new_data) \<Rightarrow>
            (case construct_at T k clk' (buffer_m new_data) (size_m v) x of
               Undefined \<Rightarrow> Undefined
             | Throws (clk'', buf) \<Rightarrow> Throws (clk'', v)
             | Returns (clk'', buf) \<Rightarrow>
                 transfer_and_swap T clk'' v (new_data\<lparr>buffer_m := buf\<rparr>)))
      else
        (case construct_at T k clk (GetAddress v) (size_m v) x of
           Undefined \<Rightarrow> Undefined
         | Throws (clk', buf) \<Rightarrow> Throws (clk', v)
         | Returns (clk', buf) \<Rightarrow> Returns (clk', with_slots v buf)))"

text \<open>
  \<^verbatim>\<open>PushBack(Type&& value)\<close> constructs the element by \<^verbatim>\<open>T(std::forward<Type>(value))\<close>:
  the copy constructor for an lvalue, the move constructor for an rvalue; \<open>k\<close> is that
  kind and \<open>x\<close> the value of the argument. It ends with \<^verbatim>\<open>size_++\<close>.
\<close>

definition PushBack ::
  "'a T_type \<Rightarrow> op_kind \<Rightarrow> 'a \<Rightarrow> nat \<times> 'a Vector
     \<Rightarrow> (nat \<times> 'a Vector, nat \<times> 'a Vector) outcome" where
  "PushBack T k x s =
     (case construct_back T k x s of
        Undefined \<Rightarrow> Undefined
      | Throws t \<Rightarrow> Throws t
      | Returns (clk', v') \<Rightarrow> Returns (clk', v'\<lparr>size_m := size_m v' + 1\<rparr>))"

text \<open>
  \<^verbatim>\<open>EmplaceBack(args...)\<close> constructs \<open>T(args...)\<close>, of value \<open>x\<close>, and returns
  \<^verbatim>\<open>data_[size_++]\<close>: the reference is the index of the slot, which
  \<^verbatim>\<open>RawMemory::operator[]\<close> asserts to be below the capacity.
\<close>

definition EmplaceBack ::
  "'a T_type \<Rightarrow> 'a \<Rightarrow> nat \<times> 'a Vector
     \<Rightarrow> ((nat \<times> 'a Vector) \<times> nat, nat \<times> 'a Vector) outcome" where
  "EmplaceBack T x s =
     (case construct_back T Construct x s of
        Undefined \<Rightarrow> Undefined
      | Throws t \<Rightarrow> Throws t
      | Returns (clk', v') \<Rightarrow>
          if capacity_m (data_m v') \<le> size_m v' then Undefined
          else Returns ((clk', v'\<lparr>size_m := size_m v' + 1\<rparr>), size_m v'))"

text \<open>\<^verbatim>\<open>PopBack\<close> and \<^verbatim>\<open>Erase\<close>; an iterator is the index it points at.\<close>

fun PopBack ::
  "nat \<times> 'a Vector \<Rightarrow> (nat \<times> 'a Vector, nat \<times> 'a Vector) outcome" where
  "PopBack (clk, v) =
       (if size_m v = 0 then Undefined
        else (case destroy_at (GetAddress v) (size_m v - 1) of
          None \<Rightarrow> Undefined
        | Some buf \<Rightarrow> Returns (clk, (with_slots v buf)\<lparr>size_m := size_m v - 1\<rparr>)))"

fun Erase ::
  "'a T_type \<Rightarrow> nat \<Rightarrow> nat \<times> 'a Vector
     \<Rightarrow> ((nat \<times> 'a Vector) \<times> nat, nat \<times> 'a Vector) outcome" where
  "Erase T indx (clk, v) =
       (if \<not> indx < size_m v then Undefined
        else (case std_move T clk (GetAddress v) (indx + 1) (size_m v) indx of
          Undefined \<Rightarrow> Undefined
        | Throws (clk', buf) \<Rightarrow> Throws (clk', with_slots v buf)
        | Returns (clk', buf) \<Rightarrow>
           (case destroy_at buf (size_m v - 1) of
              None \<Rightarrow> Undefined
            | Some buf' \<Rightarrow>
                Returns ((clk', (with_slots v buf')\<lparr>size_m := size_m v - 1\<rparr>), indx))))"

text \<open>
  \<^verbatim>\<open>operator delete(p)\<close> for a pointer at an offset into the block \<open>buf\<close>. At offset
  0 it is the pointer \<^verbatim>\<open>operator new\<close> returned and the block is released: no slot
  of it can be accessed any more. Any other pointer did not come from
  \<^verbatim>\<open>operator new\<close>, and the call is undefined (\<open>None\<close>).
\<close>

definition operator_delete :: "'a slot list \<Rightarrow> nat \<Rightarrow> 'a slot list option" where
  "operator_delete buf offset = (if offset = 0 then Some [] else None)"

text \<open>
  The \<^verbatim>\<open>try\<close> block of \<^verbatim>\<open>Emplace\<close> (lines 490-504), on the vector's own block. For
  \<^verbatim>\<open>pos != end()\<close>: the temporary \<^verbatim>\<open>new_s\<close> is constructed from the arguments,
  the last element is move-constructed into the slot at \<^verbatim>\<open>end()\<close>, the elements from
  \<open>indx\<close> on are move-assigned one slot to the right, and the temporary is
  move-assigned into slot \<open>indx\<close>. \<^verbatim>\<open>size_\<close> is untouched here.
\<close>

definition Emplace_in_place ::
  "'a T_type \<Rightarrow> op_kind \<Rightarrow> nat \<Rightarrow> 'a \<Rightarrow> nat \<Rightarrow> 'a Vector
     \<Rightarrow> (nat \<times> 'a slot list, nat \<times> 'a slot list) outcome" where
  "Emplace_in_place T k indx x clk v =
     (if indx \<noteq> size_m v then
        (if throws T k clk x then Throws (Suc clk, GetAddress v)
         else if size_m v = 0 \<or> capacity_m (data_m v) \<le> size_m v - 1
                 \<or> length (GetAddress v) \<le> size_m v - 1 then Undefined
         else
           (case GetAddress v ! (size_m v - 1) of
              None \<Rightarrow> Undefined
            | Some y \<Rightarrow>
               (case construct_at T MoveConstruct (Suc clk) (GetAddress v) (size_m v) y of
                  Undefined \<Rightarrow> Undefined
                | Throws t \<Rightarrow> Throws t
                | Returns (clk1, buf1) \<Rightarrow>
                   (case std_move_backward T clk1
                           (buf1[size_m v - 1 := Some (moved_from T y)])
                           indx (size_m v - 1) (size_m v) of
                      Undefined \<Rightarrow> Undefined
                    | Throws t \<Rightarrow> Throws t
                    | Returns (clk2, buf2) \<Rightarrow>
                       (if length buf2 \<le> indx then Undefined
                        else case buf2 ! indx of
                          None \<Rightarrow> Undefined
                        | Some z \<Rightarrow>
                            if throws T MoveAssign clk2 x then Throws (Suc clk2, buf2)
                            else Returns (Suc clk2, buf2[indx := Some x]))))))
      else construct_at T k clk (GetAddress v) (size_m v) x)"

text \<open>
  The \<^verbatim>\<open>if constexpr\<close> statement of \<^verbatim>\<open>Emplace\<close> (lines 477-484): the elements before
  \<open>indx\<close> go to the same indices of the new block \<open>dst\<close>, the elements from \<open>indx\<close> on
  go one slot further, around the new element that is already at \<open>indx\<close>; both by move or
  both by copy. It returns the old and the new block, or throws and leaves the old block.
\<close>

definition transfer_around ::
  "'a T_type \<Rightarrow> nat \<Rightarrow> 'a slot list \<Rightarrow> nat \<Rightarrow> nat \<Rightarrow> 'a slot list
     \<Rightarrow> (nat \<times> 'a slot list \<times> 'a slot list, nat \<times> 'a slot list) outcome" where
  "transfer_around T clk src indx sz dst =
     (if is_nothrow_move_constructible T \<or> \<not> is_copy_constructible T then
        (case uninitialized_move_n T clk src 0 indx dst 0 of
           Undefined \<Rightarrow> Undefined
         | Throws (c1, src1, dst1) \<Rightarrow> Throws (c1, src1)
         | Returns (c1, src1, dst1) \<Rightarrow>
            (case uninitialized_move_n T c1 src1 indx (sz - indx) dst1 (indx + 1) of
               Undefined \<Rightarrow> Undefined
             | Throws (c2, src2, dst2) \<Rightarrow> Throws (c2, src2)
             | Returns (c2, src2, dst2) \<Rightarrow> Returns (c2, src2, dst2)))
      else
        (case uninitialized_copy_n T clk src 0 indx dst 0 of
           Undefined \<Rightarrow> Undefined
         | Throws (c1, dst1) \<Rightarrow> Throws (c1, src)
         | Returns (c1, dst1) \<Rightarrow>
            (case uninitialized_copy_n T c1 src indx (sz - indx) dst1 (indx + 1) of
               Undefined \<Rightarrow> Undefined
             | Throws (c2, dst2) \<Rightarrow> Throws (c2, src)
             | Returns (c2, dst2) \<Rightarrow> Returns (c2, src, dst2))))"

text \<open>
  \<^verbatim>\<open>Emplace(pos, args...)\<close> with \<open>indx = pos - begin()\<close>; the new element, of value
  \<open>x\<close>, is constructed by the constructor of kind \<open>k\<close>. With
  \<^verbatim>\<open>data_.Capacity() <= size_\<close> it is constructed at \<open>indx\<close> of a new block, the old
  elements are transferred around it and destroyed, and the blocks are swapped. Otherwise
  the \<^verbatim>\<open>try\<close> block runs, and its handler calls \<^verbatim>\<open>operator delete (end())\<close> and
  rethrows. It ends with \<^verbatim>\<open>size_++\<close> and returns \<^verbatim>\<open>begin() + indx\<close>.
\<close>

fun Emplace ::
  "'a T_type \<Rightarrow> op_kind \<Rightarrow> nat \<Rightarrow> 'a \<Rightarrow> nat \<times> 'a Vector
     \<Rightarrow> ((nat \<times> 'a Vector) \<times> nat, nat \<times> 'a Vector) outcome" where
  "Emplace T k indx x (clk, v) =
     (if size_m v < indx then Undefined
      else
       (case (if Capacity v \<le> size_m v then
               (case RawMemory_new T clk (if size_m v = 0 then 1 else size_m v * 2) of
                  Undefined \<Rightarrow> Undefined
                | Throws clk' \<Rightarrow> Throws (clk', v)
                | Returns (clk', new_data) \<Rightarrow>
                   (case construct_at T k clk' (buffer_m new_data) indx x of
                      Undefined \<Rightarrow> Undefined
                    | Throws (clk'', buf) \<Rightarrow> Throws (clk'', v)
                    | Returns (clk'', buf) \<Rightarrow>
                       (case transfer_around T clk'' (GetAddress v) indx (size_m v) buf of
                          Undefined \<Rightarrow> Undefined
                        | Throws (c2, src) \<Rightarrow> Throws (c2, with_slots v src)
                        | Returns (c2, src, dst) \<Rightarrow>
                           (case destroy_n src 0 (size_m v) of
                              None \<Rightarrow> Undefined
                            | Some old \<Rightarrow>
                                Returns (c2, v\<lparr>data_m := new_data\<lparr>buffer_m := dst\<rparr>\<rparr>)))))
             else
               (case Emplace_in_place T k indx x clk v of
                  Undefined \<Rightarrow> Undefined
                | Throws (clk', buf) \<Rightarrow>
                   (case operator_delete buf (size_m v) of
                      None \<Rightarrow> Undefined
                    | Some buf' \<Rightarrow> Throws (clk', with_slots v buf'))
                | Returns (clk', buf) \<Rightarrow> Returns (clk', with_slots v buf))) of
          Undefined \<Rightarrow> Undefined
        | Throws t \<Rightarrow> Throws t
        | Returns (clk', v') \<Rightarrow> Returns ((clk', v'\<lparr>size_m := size_m v' + 1\<rparr>), indx)))"

text \<open>\<^verbatim>\<open>Insert(pos, const T&)\<close> and \<^verbatim>\<open>Insert(pos, T&&)\<close>.\<close>

definition Insert ::
  "'a T_type \<Rightarrow> nat \<Rightarrow> 'a \<Rightarrow> nat \<times> 'a Vector
     \<Rightarrow> ((nat \<times> 'a Vector) \<times> nat, nat \<times> 'a Vector) outcome" where
  "Insert T indx item s = Emplace T CopyConstruct indx item s"

definition Insert_rvalue ::
  "'a T_type \<Rightarrow> nat \<Rightarrow> 'a \<Rightarrow> nat \<times> 'a Vector
     \<Rightarrow> ((nat \<times> 'a Vector) \<times> nat, nat \<times> 'a Vector) outcome" where
  "Insert_rvalue T indx item s = Emplace T MoveConstruct indx item s"

section \<open>The invariant and the observable state\<close>

text \<open>
  The data model: the block has \<^verbatim>\<open>capacity_\<close> slots, \<open>size \<le> capacity\<close>, the slots
  \<open>[0, size)\<close> hold live objects and the slots \<open>[size, capacity)\<close> are raw. The
  observable state of a vector is its size, its capacity and the values of its elements
  in order.
\<close>

definition Vector_inv :: "'a Vector \<Rightarrow> bool" where
  "Vector_inv v \<longleftrightarrow>
     length (buffer_m (data_m v)) = capacity_m (data_m v) \<and>
     size_m v \<le> capacity_m (data_m v) \<and>
     list_all (\<lambda>s. s \<noteq> None) (take (size_m v) (buffer_m (data_m v))) \<and>
     list_all (\<lambda>s. s = None) (drop (size_m v) (buffer_m (data_m v)))"

definition elements :: "'a Vector \<Rightarrow> 'a list" where
  "elements v = map the (take (size_m v) (buffer_m (data_m v)))"

text \<open>The vector of capacity \<open>c\<close> whose elements are \<open>xs\<close>.\<close>

definition vec :: "'a list \<Rightarrow> nat \<Rightarrow> 'a Vector" where
  "vec xs c =
     \<lparr>data_m = \<lparr>buffer_m = map Some xs @ replicate (c - length xs) None, capacity_m = c\<rparr>,
      size_m = length xs\<rparr>"

text \<open>No operation of \<open>T\<close> throws and no allocation fails.\<close>

definition never_throws :: "'a T_type \<Rightarrow> bool" where
  "never_throws T \<longleftrightarrow> (\<forall>k n x. \<not> throws T k n x) \<and> (\<forall>n c. \<not> bad_alloc T n c)"

text \<open>
  The traits of \<open>T\<close> agree with its operations: a \<^verbatim>\<open>noexcept\<close> move constructor
  does not throw.
\<close>

definition traits_ok :: "'a T_type \<Rightarrow> bool" where
  "traits_ok T \<longleftrightarrow>
     (is_nothrow_move_constructible T \<longrightarrow> (\<forall>n x. \<not> throws T MoveConstruct n x))"

text \<open>
  The constructor the transfer of the \<^verbatim>\<open>if constexpr\<close> test uses, whether some
  operation of kind \<open>k\<close> throws when run over the values \<open>xs\<close> from clock \<open>clk\<close> on,
  and the element types for which the transfer cannot leave moved-from elements behind:
  \<open>T\<close> can be copied, or its move constructor is \<^verbatim>\<open>noexcept\<close>.
\<close>

definition transfer_kind :: "'a T_type \<Rightarrow> op_kind" where
  "transfer_kind T =
     (if is_nothrow_move_constructible T \<or> \<not> is_copy_constructible T then MoveConstruct
      else CopyConstruct)"

fun throws_in :: "'a T_type \<Rightarrow> op_kind \<Rightarrow> nat \<Rightarrow> 'a list \<Rightarrow> bool" where
  "throws_in T k clk [] = False"
| "throws_in T k clk (x # xs) = (throws T k clk x \<or> throws_in T k (Suc clk) xs)"

definition strong_transfer :: "'a T_type \<Rightarrow> bool" where
  "strong_transfer T \<longleftrightarrow>
     traits_ok T \<and> (is_nothrow_move_constructible T \<or> is_copy_constructible T)"


section \<open>Constructors, assignment and Swap\<close>

text \<open>
  \<^verbatim>\<open>explicit Vector(size_t size)\<close>, \<^verbatim>\<open>Vector(const Vector& other)\<close> and
  \<^verbatim>\<open>Vector(Vector&& other)\<close> (\<open>sz\<close> is the parameter \<^verbatim>\<open>size\<close>). A constructor that
  throws constructs no object. The
  move constructor returns the new vector and what is left of \<open>other\<close>.
\<close>

definition Vector_sized ::
  "'a T_type \<Rightarrow> nat \<Rightarrow> nat \<Rightarrow> (nat \<times> 'a Vector, nat) outcome" where
  "Vector_sized T clk sz =
     (case RawMemory_new T clk sz of
        Undefined \<Rightarrow> Undefined
      | Throws clk' \<Rightarrow> Throws clk'
      | Returns (clk', new_data) \<Rightarrow>
         (case uninitialized_value_construct_n T clk' (buffer_m new_data) 0 sz of
            Undefined \<Rightarrow> Undefined
          | Throws (clk'', buf) \<Rightarrow> Throws clk''
          | Returns (clk'', buf) \<Rightarrow>
              Returns (clk'', \<lparr>data_m = new_data\<lparr>buffer_m := buf\<rparr>, size_m = sz\<rparr>)))"

definition Vector_copy ::
  "'a T_type \<Rightarrow> nat \<Rightarrow> 'a Vector \<Rightarrow> (nat \<times> 'a Vector, nat) outcome" where
  "Vector_copy T clk other =
     (case RawMemory_new T clk (size_m other) of
        Undefined \<Rightarrow> Undefined
      | Throws clk' \<Rightarrow> Throws clk'
      | Returns (clk', new_data) \<Rightarrow>
         (case uninitialized_copy_n T clk' (GetAddress other) 0 (size_m other)
                 (buffer_m new_data) 0 of
            Undefined \<Rightarrow> Undefined
          | Throws (clk'', buf) \<Rightarrow> Throws clk''
          | Returns (clk'', buf) \<Rightarrow>
              Returns (clk'', \<lparr>data_m = new_data\<lparr>buffer_m := buf\<rparr>, size_m = size_m other\<rparr>)))"

definition Vector_move :: "'a Vector \<Rightarrow> 'a Vector \<times> 'a Vector" where
  "Vector_move other =
     (\<lparr>data_m = \<lparr>buffer_m = buffer_m (data_m other), capacity_m = capacity_m (data_m other)\<rparr>,
       size_m = size_m other\<rparr>,
      \<lparr>data_m = \<lparr>buffer_m = [], capacity_m = 0\<rparr>, size_m = 0\<rparr>)"

text \<open>
  \<^verbatim>\<open>Swap\<close> and the assignment operators take two objects that may be the same one, so
  they work on a store of \<open>Vector\<close> objects, addressed by number. \<^verbatim>\<open>std::swap(a, b)\<close>
  on a member of the objects at \<open>p\<close> and \<open>q\<close> is \<^verbatim>\<open>tmp = a; a = b; b = tmp\<close>.
\<close>

type_synonym 'a store = "nat \<Rightarrow> 'a Vector"

definition std_swap ::
  "('o \<Rightarrow> 'f) \<Rightarrow> ('f \<Rightarrow> 'o \<Rightarrow> 'o) \<Rightarrow> nat \<Rightarrow> nat \<Rightarrow> (nat \<Rightarrow> 'o) \<Rightarrow> (nat \<Rightarrow> 'o)" where
  "std_swap get put p q st =
     (let tmp = get (st p);
          st1 = st(p := put (get (st q)) (st p));
          st2 = st1(q := put tmp (st1 q))
      in st2)"

definition RawMemory_Swap :: "nat \<Rightarrow> nat \<Rightarrow> 'a store \<Rightarrow> 'a store" where
  "RawMemory_Swap this other st =
     std_swap (\<lambda>v. capacity_m (data_m v)) (\<lambda>c v. v\<lparr>data_m := (data_m v)\<lparr>capacity_m := c\<rparr>\<rparr>)
       this other
       (std_swap (\<lambda>v. buffer_m (data_m v)) (\<lambda>b v. v\<lparr>data_m := (data_m v)\<lparr>buffer_m := b\<rparr>\<rparr>)
          this other st)"

definition Swap :: "nat \<Rightarrow> nat \<Rightarrow> 'a store \<Rightarrow> 'a store" where
  "Swap this other st =
     std_swap size_m (\<lambda>n v. v\<lparr>size_m := n\<rparr>) this other (RawMemory_Swap this other st)"

text \<open>
  \<^verbatim>\<open>operator=(const Vector& other)\<close>. In the last branch \<^verbatim>\<open>other_copy\<close> is a local
  object, different from \<^verbatim>\<open>*this\<close>: after \<^verbatim>\<open>Swap(other_copy)\<close> the vector is the
  copy, and the destructor of \<^verbatim>\<open>other_copy\<close> destroys the old elements.
\<close>

fun assign_copy ::
  "'a T_type \<Rightarrow> nat \<Rightarrow> nat \<Rightarrow> nat \<times> 'a store
     \<Rightarrow> (nat \<times> 'a store, nat \<times> 'a store) outcome" where
  "assign_copy T this other (clk, st) =
     (if this \<noteq> other then
        (if size_m (st other) \<le> Capacity (st this) then
           (case (if size_m (st this) \<le> size_m (st other) then
                    (case std_copy T clk (GetAddress (st other)) 0 (size_m (st this))
                            (GetAddress (st this)) 0 of
                       Undefined \<Rightarrow> Undefined
                     | Throws t \<Rightarrow> Throws t
                     | Returns (clk', buf) \<Rightarrow>
                         uninitialized_copy_n T clk' (GetAddress (st other)) (size_m (st this))
                           (size_m (st other) - size_m (st this)) buf (size_m (st this)))
                  else
                    (case std_copy T clk (GetAddress (st other)) 0 (size_m (st other))
                            (GetAddress (st this)) 0 of
                       Undefined \<Rightarrow> Undefined
                     | Throws t \<Rightarrow> Throws t
                     | Returns (clk', buf) \<Rightarrow>
                        (case destroy_n buf (size_m (st other))
                                (size_m (st this) - size_m (st other)) of
                           None \<Rightarrow> Undefined
                         | Some buf' \<Rightarrow> Returns (clk', buf')))) of
              Undefined \<Rightarrow> Undefined
            | Throws (clk', buf) \<Rightarrow> Throws (clk', st(this := with_slots (st this) buf))
            | Returns (clk', buf) \<Rightarrow>
                Returns (clk', st(this := (with_slots (st this) buf)\<lparr>size_m := size_m (st other)\<rparr>)))
         else
           (case Vector_copy T clk (st other) of
              Undefined \<Rightarrow> Undefined
            | Throws clk' \<Rightarrow> Throws (clk', st)
            | Returns (clk', other_copy) \<Rightarrow>
               (case destroy_n (GetAddress (st this)) 0 (size_m (st this)) of
                  None \<Rightarrow> Undefined
                | Some old \<Rightarrow> Returns (clk', st(this := other_copy)))))
      else Returns (clk, st))"

text \<open>\<^verbatim>\<open>operator=(Vector&& other) noexcept\<close>: \<^verbatim>\<open>Swap(other)\<close>.\<close>

definition assign_move :: "nat \<Rightarrow> nat \<Rightarrow> 'a store \<Rightarrow> 'a store" where
  "assign_move this other st = Swap this other st"

section \<open>Sequences of calls\<close>

text \<open>
  A program state is the clock, the number \<open>n\<close> of vectors constructed so far and the
  store; the vectors live at the addresses below \<open>n\<close>. A constructor call creates the
  vector at address \<open>n\<close>; every other call names the objects it works on, and a call on
  an address that holds no vector is undefined.
\<close>

datatype 'a call =
    Call_Vector
  | Call_Vector_sized nat
  | Call_Vector_copy nat
  | Call_Vector_move nat
  | Call_Reserve nat nat
  | Call_Resize nat nat
  | Call_Swap nat nat
  | Call_EmplaceBack nat 'a
  | Call_Emplace nat nat 'a
  | Call_Erase nat nat
  | Call_Insert nat nat 'a
  | Call_Insert_rvalue nat nat 'a
  | Call_PopBack nat
  | Call_PushBack nat op_kind 'a
  | Call_assign_copy nat nat
  | Call_assign_move nat nat

definition on_object ::
  "nat \<Rightarrow> nat \<Rightarrow> 'a store \<Rightarrow> (nat \<times> 'a Vector, nat \<times> 'a Vector) outcome
     \<Rightarrow> (nat \<times> nat \<times> 'a store, nat \<times> nat \<times> 'a store) outcome" where
  "on_object a n st r =
     (case r of
        Undefined \<Rightarrow> Undefined
      | Throws (clk', v') \<Rightarrow> Throws (clk', n, st(a := v'))
      | Returns (clk', v') \<Rightarrow> Returns (clk', n, st(a := v')))"

definition discard :: "('s \<times> 'r, 't) outcome \<Rightarrow> ('s, 't) outcome" where
  "discard r = (case r of Undefined \<Rightarrow> Undefined | Throws t \<Rightarrow> Throws t | Returns (s, i) \<Rightarrow> Returns s)"

fun step ::
  "'a T_type \<Rightarrow> 'a call \<Rightarrow> nat \<times> nat \<times> 'a store
     \<Rightarrow> (nat \<times> nat \<times> 'a store, nat \<times> nat \<times> 'a store) outcome" where
  "step T Call_Vector (clk, n, st) = Returns (clk, Suc n, st(n := Vector_default))"
| "step T (Call_Vector_sized sz) (clk, n, st) =
     (case Vector_sized T clk sz of
        Undefined \<Rightarrow> Undefined
      | Throws clk' \<Rightarrow> Throws (clk', n, st)
      | Returns (clk', v) \<Rightarrow> Returns (clk', Suc n, st(n := v)))"
| "step T (Call_Vector_copy b) (clk, n, st) =
     (if n \<le> b then Undefined
      else case Vector_copy T clk (st b) of
        Undefined \<Rightarrow> Undefined
      | Throws clk' \<Rightarrow> Throws (clk', n, st)
      | Returns (clk', v) \<Rightarrow> Returns (clk', Suc n, st(n := v)))"
| "step T (Call_Vector_move b) (clk, n, st) =
     (if n \<le> b then Undefined
      else Returns (clk, Suc n, st(b := snd (Vector_move (st b)), n := fst (Vector_move (st b)))))"
| "step T (Call_Reserve a c) (clk, n, st) =
     (if n \<le> a then Undefined else on_object a n st (Reserve T c (clk, st a)))"
| "step T (Call_Resize a m) (clk, n, st) =
     (if n \<le> a then Undefined else on_object a n st (Resize T m (clk, st a)))"
| "step T (Call_Swap a b) (clk, n, st) =
     (if n \<le> a \<or> n \<le> b then Undefined else Returns (clk, n, Swap a b st))"
| "step T (Call_EmplaceBack a x) (clk, n, st) =
     (if n \<le> a then Undefined else on_object a n st (discard (EmplaceBack T x (clk, st a))))"
| "step T (Call_Emplace a i x) (clk, n, st) =
     (if n \<le> a then Undefined
      else on_object a n st (discard (Emplace T Construct i x (clk, st a))))"
| "step T (Call_Erase a i) (clk, n, st) =
     (if n \<le> a then Undefined else on_object a n st (discard (Erase T i (clk, st a))))"
| "step T (Call_Insert a i x) (clk, n, st) =
     (if n \<le> a then Undefined else on_object a n st (discard (Insert T i x (clk, st a))))"
| "step T (Call_Insert_rvalue a i x) (clk, n, st) =
     (if n \<le> a then Undefined
      else on_object a n st (discard (Insert_rvalue T i x (clk, st a))))"
| "step T (Call_PopBack a) (clk, n, st) =
     (if n \<le> a then Undefined else on_object a n st (PopBack (clk, st a)))"
| "step T (Call_PushBack a k x) (clk, n, st) =
     (if n \<le> a then Undefined else on_object a n st (PushBack T k x (clk, st a)))"
| "step T (Call_assign_copy a b) (clk, n, st) =
     (if n \<le> a \<or> n \<le> b then Undefined
      else case assign_copy T a b (clk, st) of
        Undefined \<Rightarrow> Undefined
      | Throws (clk', st') \<Rightarrow> Throws (clk', n, st')
      | Returns (clk', st') \<Rightarrow> Returns (clk', n, st'))"
| "step T (Call_assign_move a b) (clk, n, st) =
     (if n \<le> a \<or> n \<le> b then Undefined else Returns (clk, n, assign_move a b st))"




section \<open>Element types used as examples\<close>

text \<open>
  \<open>T_plain\<close> behaves like \<^verbatim>\<open>int\<close>: nothing throws and a moved-from object keeps its
  value. \<open>T_copy_throws\<close> has a copy constructor that throws on the value 2 and no move
  constructor of its own, so a move is that copy. \<open>T_move_only\<close> cannot be copied, its
  move constructor throws on the value 2, and a moved-from object holds 0.
  \<open>T_assign_throws\<close> has assignment operators that throw on the value 1.
\<close>

definition T_plain :: "nat T_type" where
  "T_plain =
     \<lparr>is_nothrow_move_constructible = True, is_copy_constructible = True, value_init = 0,
      moved_from = (\<lambda>x. x), throws = (\<lambda>k n x. False), bad_alloc = (\<lambda>n c. False)\<rparr>"



definition T_assign_throws :: "nat T_type" where
  "T_assign_throws =
     \<lparr>is_nothrow_move_constructible = True, is_copy_constructible = True, value_init = 0,
      moved_from = (\<lambda>x. x),
      throws = (\<lambda>k n x. (k = CopyAssign \<or> k = MoveAssign) \<and> x = 1),
      bad_alloc = (\<lambda>n c. False)\<rparr>"



section \<open>Vectors that satisfy the invariant\<close>

declare Reserve.simps [simp del] Resize.simps [simp del] construct_back.simps [simp del]
  PopBack.simps [simp del] Erase.simps [simp del] Emplace.simps [simp del]
  assign_copy.simps [simp del]



lemma vec_simps [simp]:
  "size_m (vec xs c) = length xs"
  "Capacity (vec xs c) = c"
  "capacity_m (data_m (vec xs c)) = c"
  "GetAddress (vec xs c) = map Some xs @ replicate (c - length xs) None"
  "buffer_m (data_m (vec xs c)) = map Some xs @ replicate (c - length xs) None"
  "elements (vec xs c) = xs"
  by (simp_all add: vec_def Capacity_def GetAddress_def elements_def comp_def)

lemma Vector_inv_vec [simp]: "Vector_inv (vec xs c) \<longleftrightarrow> length xs \<le> c"
  by (auto simp: Vector_inv_def vec_def list_all_iff)

lemma live_prefix: "list_all (\<lambda>s. s \<noteq> None) ys \<Longrightarrow> map Some (map the ys) = ys"
  by (induction ys) auto

lemma raw_suffix: "list_all (\<lambda>s. s = None) ys \<Longrightarrow> ys = replicate (length ys) None"
  by (induction ys) auto

lemma Vector_inv_D: 
  assumes "Vector_inv v" shows "v = vec (elements v) (Capacity v)" "length (elements v) = size_m v" "size_m v \<le> Capacity v"
proof -
  let ?b = "buffer_m (data_m v)"
  from assms have l: "length ?b = capacity_m (data_m v)" and s: "size_m v \<le> capacity_m (data_m v)"
    and p: "list_all (\<lambda>s. s \<noteq> None) (take (size_m v) ?b)" and r: "list_all (\<lambda>s. s = None) (drop (size_m v) ?b)"
    by (simp_all add: Vector_inv_def)
  show len: "length (elements v) = size_m v" using l s by (simp add: elements_def)
  show "size_m v \<le> Capacity v" using s by (simp add: Capacity_def)
  have "?b = take (size_m v) ?b @ drop (size_m v) ?b" by simp
  also have "\<dots> = map Some (elements v) @ replicate (capacity_m (data_m v) - size_m v) None"
    using live_prefix[OF p] raw_suffix[OF r] l by (simp add: elements_def)
  finally have "?b = map Some (elements v) @ replicate (Capacity v - length (elements v)) None"
    using len by (simp add: Capacity_def)
  then show "v = vec (elements v) (Capacity v)"
    using len by (simp add: vec_def Capacity_def)
qed

lemma Vector_inv_iff: "Vector_inv v \<longleftrightarrow> (\<exists>xs c. length xs \<le> c \<and> v = vec xs c)"
  using Vector_inv_D[of v] by (metis Vector_inv_vec)



lemma construct_at_mid:
  "construct_at T k clk (da @ y # db) (length da) x =
     (if throws T k clk x then Throws (Suc clk, da @ y # db) else Returns (Suc clk, da @ Some x # db))"
  by (simp add: construct_at_def)

lemma destroy_at_mid:
  "destroy_at (sa @ Some x # sb) (length sa) = Some (sa @ None # sb)"
  by (simp add: destroy_at_def)

lemma destroy_n_append:
  "destroy_n (sa @ map Some xs @ sb) (length sa) (length xs) = Some (sa @ replicate (length xs) None @ sb)"
proof (induction xs arbitrary: sa)
  case Nil
  then show ?case by simp
next
  case (Cons x xs)
  show ?case using Cons.IH[where sa = "sa @ [None]"]
    by (simp add: destroy_at_mid replicate_app_Cons_same)
qed

lemma uninitialized_copy_n_append:
  "length dm = length xs \<Longrightarrow>
   (case uninitialized_copy_n T clk (sa @ map Some xs @ sb) (length sa) (length xs) (da @ dm @ db) (length da) of
      Returns r \<Rightarrow> \<not> throws_in T CopyConstruct clk xs \<and> r = (clk + length xs, da @ map Some xs @ db)
    | Throws t \<Rightarrow> throws_in T CopyConstruct clk xs
    | Undefined \<Rightarrow> False)"
proof (induction xs arbitrary: sa da dm clk)
  case Nil
  then show ?case by simp
next
  case (Cons x xs)
  from Cons.prems obtain y dm' where dm: "dm = y # dm'" and l: "length dm' = length xs"
    by (cases dm) auto
  show ?case
    using Cons.IH[where dm = dm' and clk = "Suc clk" and sa = "sa @ [Some x]" and da = "da @ [Some x]", OF l]
    by (simp add: dm construct_at_mid split: outcome.splits prod.splits)
qed

lemma uninitialized_move_n_append:
  "length dm = length xs \<Longrightarrow>
   (case uninitialized_move_n T clk (sa @ map Some xs @ sb) (length sa) (length xs) (da @ dm @ db) (length da) of
      Returns r \<Rightarrow> \<not> throws_in T MoveConstruct clk xs \<and>
         r = (clk + length xs, sa @ map Some (map (moved_from T) xs) @ sb, da @ map Some xs @ db)
    | Throws t \<Rightarrow> throws_in T MoveConstruct clk xs
    | Undefined \<Rightarrow> False)"
proof (induction xs arbitrary: sa da dm clk)
  case Nil
  then show ?case by simp
next
  case (Cons x xs)
  from Cons.prems obtain y dm' where dm: "dm = y # dm'" and l: "length dm' = length xs"
    by (cases dm) auto
  show ?case
    using Cons.IH[where dm = dm' and clk = "Suc clk" and sa = "sa @ [Some (moved_from T x)]" and da = "da @ [Some x]", OF l]
    by (simp add: dm construct_at_mid split: outcome.splits prod.splits)
qed



lemma never_throws_in: "never_throws T \<Longrightarrow> \<not> throws_in T k clk xs"
  by (induction xs arbitrary: clk) (auto simp: never_throws_def)

lemma nothrow_move_in:
  "traits_ok T \<Longrightarrow> is_nothrow_move_constructible T \<Longrightarrow> \<not> throws_in T MoveConstruct clk xs"
  by (induction xs arbitrary: clk) (auto simp: traits_ok_def)

lemma strong_transfer_kind:
  "strong_transfer T \<Longrightarrow> throws_in T (transfer_kind T) clk xs \<Longrightarrow> transfer_kind T = CopyConstruct"
  using nothrow_move_in[of T clk xs]
  by (auto simp: strong_transfer_def transfer_kind_def split: if_splits)

lemma transfer_and_swap_vec:
  assumes "length dm = length xs"
  shows "case transfer_and_swap T clk (vec xs c) \<lparr>buffer_m = dm @ db, capacity_m = nc\<rparr> of
     Returns r \<Rightarrow> \<not> throws_in T (transfer_kind T) clk xs \<and>
        r = (clk + length xs,
             \<lparr>data_m = \<lparr>buffer_m = map Some xs @ db, capacity_m = nc\<rparr>, size_m = length xs\<rparr>)
   | Throws t \<Rightarrow> throws_in T (transfer_kind T) clk xs \<and>
        (transfer_kind T = CopyConstruct \<longrightarrow> snd t = vec xs c)
   | Undefined \<Rightarrow> False"
proof (cases "is_nothrow_move_constructible T \<or> \<not> is_copy_constructible T")
  case True
  then show ?thesis
    using uninitialized_move_n_append[where sa = "[]" and da = "[]" and T = T and clk = clk
        and sb = "replicate (c - length xs) None" and db = db, OF assms]
      destroy_n_append[where sa = "[]" and xs = "map (moved_from T) xs" and sb = "replicate (c - length xs) None"]
    by (auto simp: transfer_and_swap_def transfer_kind_def vec_def GetAddress_def with_slots_def split: outcome.splits)
next
  case False
  then show ?thesis
    using uninitialized_copy_n_append[where sa = "[]" and da = "[]" and T = T and clk = clk
        and sb = "replicate (c - length xs) None" and db = db, OF assms]
      destroy_n_append[where sa = "[]" and xs = xs and sb = "replicate (c - length xs) None"]
    by (auto simp: transfer_and_swap_def transfer_kind_def vec_def GetAddress_def with_slots_def split: outcome.splits)
qed

lemma RawMemory_new_cases:
  "RawMemory_new T clk n = Returns (Suc clk, \<lparr>buffer_m = replicate n None, capacity_m = n\<rparr>)
   \<or> RawMemory_new T clk n = Throws (Suc clk) \<and> \<not> never_throws T"
  by (auto simp: RawMemory_new_def Allocate_def never_throws_def)




lemma throws_not_never: "throws T k clk x \<Longrightarrow> \<not> never_throws T"
  by (auto simp: never_throws_def)

lemma replicate_split:
  assumes "n < m"
  shows "replicate m y = replicate n y @ y # replicate (m - Suc n) y"
proof -
  have "replicate m y = replicate (n + Suc (m - Suc n)) y" using assms by simp
  also have "\<dots> = replicate n y @ y # replicate (m - Suc n) y"
    by (simp only: replicate_add replicate_Suc)
  finally show ?thesis .
qed

lemma vec_snoc:
  "\<lparr>data_m = \<lparr>buffer_m = map Some xs @ Some x # replicate (c - Suc (length xs)) None, capacity_m = c\<rparr>,
     size_m = Suc (length xs)\<rparr> = vec (xs @ [x]) c"
  by (simp add: vec_def)



lemma with_slots_vec [simp]:
  "with_slots (vec xs c) b = \<lparr>data_m = \<lparr>buffer_m = b, capacity_m = c\<rparr>, size_m = length xs\<rparr>"
  by (simp add: with_slots_def vec_def)

lemma raw_tail: "n < c \<Longrightarrow> replicate (c - n) None = None # replicate (c - Suc n) None"
  by (cases "c - n") auto

lemma construct_back_inplace:
  assumes lt: "length xs < c"
  shows "case construct_back T k x (clk, vec xs c) of
     Returns r \<Rightarrow> snd r\<lparr>size_m := Suc (length xs)\<rparr> = vec (xs @ [x]) c \<and> size_m (snd r) = length xs
        \<and> capacity_m (data_m (snd r)) = c
   | Throws t \<Rightarrow> \<not> never_throws T \<and> snd t = vec xs c
   | Undefined \<Rightarrow> False"
proof -
  have c: "construct_at T k clk (GetAddress (vec xs c)) (length xs) x =
     (if throws T k clk x then Throws (Suc clk, GetAddress (vec xs c))
      else Returns (Suc clk, map Some xs @ Some x # replicate (c - Suc (length xs)) None))"
    using construct_at_mid[where da = "map Some xs" and y = None and T = T and k = k
         and clk = clk and x = x and db = "replicate (c - Suc (length xs)) None"]
    by (simp add: raw_tail[OF lt])
  show ?thesis
    using lt throws_not_never[of T k clk x]
    by (simp add: construct_back.simps c vec_snoc del: vec_simps(4))
qed

lemma construct_back_grow:
  shows "case construct_back T k x (clk, vec xs (length xs)) of
     Returns r \<Rightarrow> snd r\<lparr>size_m := Suc (length xs)\<rparr> = vec (xs @ [x]) (max 1 (2 * length xs))
        \<and> size_m (snd r) = length xs \<and> capacity_m (data_m (snd r)) = max 1 (2 * length xs)
   | Throws t \<Rightarrow> \<not> never_throws T \<and> (strong_transfer T \<longrightarrow> snd t = vec xs (length xs))
   | Undefined \<Rightarrow> False"
proof -
  define m where "m = (if length xs = 0 then 1 else length xs * 2)"
  have m: "length xs < m" "m = max 1 (2 * length xs)" by (cases xs; simp add: m_def)+
  define tl where "tl = replicate (m - Suc (length xs)) (None :: 'a option)"
  have c: "construct_at T k (Suc clk) (replicate m None) (length xs) x =
     (if throws T k (Suc clk) x then Throws (Suc (Suc clk), replicate m None)
      else Returns (Suc (Suc clk), replicate (length xs) None @ Some x # tl))"
    using construct_at_mid[where da = "replicate (length xs) None" and y = None and T = T and k = k
         and clk = "Suc clk" and x = x and db = tl]
    unfolding replicate_split[OF m(1), of None] tl_def by (simp del: replicate_app_Cons_same)
  have P: "construct_back T k x (clk, vec xs (length xs)) =
     (case RawMemory_new T clk m of
        Undefined \<Rightarrow> Undefined
      | Throws clk' \<Rightarrow> Throws (clk', vec xs (length xs))
      | Returns (clk', new_data) \<Rightarrow>
         (case construct_at T k clk' (buffer_m new_data) (length xs) x of
            Undefined \<Rightarrow> Undefined
          | Throws (clk'', buf) \<Rightarrow> Throws (clk'', vec xs (length xs))
          | Returns (clk'', buf) \<Rightarrow>
             transfer_and_swap T clk'' (vec xs (length xs)) (new_data\<lparr>buffer_m := buf\<rparr>)))"
    by (simp add: construct_back.simps m_def split: outcome.splits prod.splits)
  have t: "case transfer_and_swap T (Suc (Suc clk)) (vec xs (length xs))
              \<lparr>buffer_m = replicate (length xs) None @ Some x # tl, capacity_m = m\<rparr> of
     Returns r \<Rightarrow> \<not> throws_in T (transfer_kind T) (Suc (Suc clk)) xs \<and>
        r = (Suc (Suc clk) + length xs,
             \<lparr>data_m = \<lparr>buffer_m = map Some xs @ Some x # tl, capacity_m = m\<rparr>, size_m = length xs\<rparr>)
   | Throws t \<Rightarrow> throws_in T (transfer_kind T) (Suc (Suc clk)) xs \<and>
        (transfer_kind T = CopyConstruct \<longrightarrow> snd t = vec xs (length xs))
   | Undefined \<Rightarrow> False"
    by (rule transfer_and_swap_vec) simp
  have v: "\<lparr>data_m = \<lparr>buffer_m = map Some xs @ Some x # tl, capacity_m = m\<rparr>, size_m = Suc (length xs)\<rparr>
       = vec (xs @ [x]) m"
    unfolding tl_def by (rule vec_snoc)
  consider (alloc) "RawMemory_new T clk m = Throws (Suc clk)" "\<not> never_throws T"
    | (ctor) "RawMemory_new T clk m = Returns (Suc clk, \<lparr>buffer_m = replicate m None, capacity_m = m\<rparr>)"
         "throws T k (Suc clk) x"
    | (transfer) "RawMemory_new T clk m = Returns (Suc clk, \<lparr>buffer_m = replicate m None, capacity_m = m\<rparr>)"
         "\<not> throws T k (Suc clk) x"
    using RawMemory_new_cases[of T clk m] by blast
  then have "case construct_back T k x (clk, vec xs (length xs)) of
     Returns r \<Rightarrow> snd r\<lparr>size_m := Suc (length xs)\<rparr> = vec (xs @ [x]) m
        \<and> size_m (snd r) = length xs \<and> capacity_m (data_m (snd r)) = m
   | Throws t \<Rightarrow> \<not> never_throws T \<and> (strong_transfer T \<longrightarrow> snd t = vec xs (length xs))
   | Undefined \<Rightarrow> False"
  proof cases
    case alloc
    then show ?thesis by (simp add: P)
  next
    case ctor
    then show ?thesis using throws_not_never[of T k "Suc clk" x] by (simp add: P c)
  next
    case transfer
    then show ?thesis
      using t never_throws_in[of T "transfer_kind T" "Suc (Suc clk)" xs]
        strong_transfer_kind[of T "Suc (Suc clk)" xs]
      by (auto simp: P c v simp del: replicate_app_Cons_same split: outcome.splits)
  qed
  then show ?thesis unfolding m(2) .
qed

lemma construct_back_vec:
  assumes "length xs \<le> c"
  shows "case construct_back T k x (clk, vec xs c) of
     Returns r \<Rightarrow>
        snd r\<lparr>size_m := Suc (length xs)\<rparr> = vec (xs @ [x]) (if length xs = c then max 1 (2 * c) else c)
        \<and> size_m (snd r) = length xs
        \<and> capacity_m (data_m (snd r)) = (if length xs = c then max 1 (2 * c) else c)
   | Throws t \<Rightarrow> \<not> never_throws T \<and> (strong_transfer T \<or> length xs < c \<longrightarrow> snd t = vec xs c)
   | Undefined \<Rightarrow> False"
proof (cases "length xs = c")
  case True
  then show ?thesis
    using construct_back_grow[where T = T and k = k and x = x and clk = clk and xs = xs]
    by (auto split: outcome.splits)
next
  case False
  then have "length xs < c" using assms by simp
  then show ?thesis
    using construct_back_inplace[where T = T and k = k and x = x and clk = clk and xs = xs and c = c]
    by (auto split: outcome.splits)
qed

lemma PushBack_vec:
  assumes "length xs \<le> c"
  shows "case PushBack T k x (clk, vec xs c) of
     Returns r \<Rightarrow> snd r = vec (xs @ [x]) (if length xs = c then max 1 (2 * c) else c)
   | Throws t \<Rightarrow> \<not> never_throws T \<and> (strong_transfer T \<or> length xs < c \<longrightarrow> snd t = vec xs c)
   | Undefined \<Rightarrow> False"
  using construct_back_vec[OF assms, where T = T and k = k and x = x and clk = clk]
  by (auto simp: PushBack_def split: outcome.splits)

lemma EmplaceBack_vec:
  assumes "length xs \<le> c"
  shows "case EmplaceBack T x (clk, vec xs c) of
     Returns r \<Rightarrow> snd (fst r) = vec (xs @ [x]) (if length xs = c then max 1 (2 * c) else c)
        \<and> snd r = length xs
   | Throws t \<Rightarrow> \<not> never_throws T \<and> (strong_transfer T \<or> length xs < c \<longrightarrow> snd t = vec xs c)
   | Undefined \<Rightarrow> False"
  using construct_back_vec[OF assms, where T = T and k = Construct and x = x and clk = clk] assms
  by (auto simp: EmplaceBack_def split: outcome.splits if_splits)

lemma PopBack_vec:
  assumes "length xs < c"
  shows "PopBack (clk, vec (xs @ [x]) c) = Returns (clk, vec xs c)"
proof -
  have "destroy_at (GetAddress (vec (xs @ [x]) c)) (length xs) = Some (map Some xs @ None # replicate (c - Suc (length xs)) None)"
    using destroy_at_mid[where sa = "map Some xs" and x = x and sb = "replicate (c - Suc (length xs)) None"]
    by simp
  then show ?thesis
    by (simp add: PopBack.simps raw_tail[OF assms] vec_def with_slots_def del: vec_simps(4))
qed


section \<open>PopBack\<close>

text \<open>
  C10. On a vector that is not empty, \<^verbatim>\<open>PopBack\<close> returns, the size goes down by one,
  the elements at the indices below the new size keep their values, the capacity is
  unchanged, and no operation of \<open>T\<close> other than the destructor runs (the clock is
  unchanged).
\<close>

theorem PopBack_frame:
  assumes "Vector_inv v" and "Size v \<noteq> 0"
  shows "\<exists>v'. PopBack (clk, v) = Returns (clk, v') \<and> Size v' = Size v - 1 \<and>
           elements v' = butlast (elements v) \<and>
           (\<forall>i < Size v - 1. elements v' ! i = elements v ! i) \<and>
           Capacity v' = Capacity v \<and> Vector_inv v'"
proof -
  note d = Vector_inv_D[OF assms(1)]
  from assms(2) d(2) have "elements v \<noteq> []" by (auto simp: Size_def)
  then obtain xs x where e: "elements v = xs @ [x]" by (cases "elements v" rule: rev_cases) auto
  have lt: "length xs < Capacity v" using d(2,3) e by simp
  have "PopBack (clk, v) = Returns (clk, vec xs (Capacity v))"
    using PopBack_vec[OF lt, of clk x] d(1) e by simp
  moreover have "Size v = Suc (length xs)" using d(2) e by (simp add: Size_def)
  ultimately show ?thesis using lt e by (auto simp: Size_def nth_append)
qed

theorem PopBack_frame_witness:
  "Vector_inv (vec [1, 2, 3 :: nat] 4) \<and> Size (vec [1, 2, 3 :: nat] 4) \<noteq> 0 \<and>
   (\<exists>v'. PopBack (0, vec [1, 2, 3 :: nat] 4) = Returns (0, v') \<and> Size v' = 2 \<and>
      elements v' = [1, 2] \<and> Capacity v' = 4)"
proof -
  have h1: "Vector_inv (vec [1, 2, 3 :: nat] 4)" by simp
  have h2: "Size (vec [1, 2, 3 :: nat] 4) \<noteq> 0" by (simp add: Size_def)
  show ?thesis using h1 h2 PopBack_frame[OF h1 h2, of 0] by (auto simp: Size_def)
qed

section \<open>Moves inside the block\<close>

lemma move_assign_right:
  "move_assign T clk (A @ Some m # Some z # B) (length A) (Suc (length A)) =
     (if throws T MoveAssign clk m then Throws (Suc clk, A @ Some m # Some z # B)
      else Returns (Suc clk, A @ Some (moved_from T m) # Some m # B))"
  by (simp add: move_assign_def nth_append list_update_append)

lemma move_assign_left:
  "move_assign T clk (A @ Some z # Some p # B) (Suc (length A)) (length A) =
     (if throws T MoveAssign clk p then Throws (Suc clk, A @ Some z # Some p # B)
      else Returns (Suc clk, A @ Some p # Some (moved_from T p) # B))"
  by (simp add: move_assign_def nth_append list_update_append)

lemma move_backward_loop_append:
  "case move_backward_loop T clk (A @ map Some mid @ Some z # B) (length A) (length mid)
          (Suc (length A + length mid)) of
     Returns r \<Rightarrow> snd r = A @ Some (if mid = [] then z else moved_from T (hd mid)) # map Some mid @ B
   | Throws t \<Rightarrow> \<not> never_throws T
   | Undefined \<Rightarrow> False"
proof (induction mid arbitrary: z B clk rule: rev_induct)
  case Nil
  then show ?case by simp
next
  case (snoc m mid)
  let ?buf = "A @ map Some (mid @ [m]) @ Some z # B"
  let ?buf' = "A @ map Some mid @ Some (moved_from T m) # Some m # B"
  have ma: "move_assign T clk (A @ map Some mid @ Some m # Some z # B) (length A + length mid)
              (Suc (length A + length mid)) =
     (if throws T MoveAssign clk m then Throws (Suc clk, ?buf) else Returns (Suc clk, ?buf'))"
    using move_assign_right[where A = "A @ map Some mid" and m = m and z = z and B = B
        and T = T and clk = clk]
    by simp
  show ?case
  proof (cases "throws T MoveAssign clk m")
    case True
    then show ?thesis using throws_not_never[of T MoveAssign clk m] by (simp add: ma)
  next
    case False
    have step: "move_backward_loop T clk ?buf (length A) (length (mid @ [m]))
                  (Suc (length A + length (mid @ [m]))) =
                move_backward_loop T (Suc clk) ?buf' (length A) (length mid) (Suc (length A + length mid))"
      using False by (simp add: ma)
    have ih: "case move_backward_loop T (Suc clk) ?buf' (length A) (length mid) (Suc (length A + length mid)) of
        Returns r \<Rightarrow> snd r = A @ Some (if mid = [] then moved_from T m else moved_from T (hd mid))
                               # map Some mid @ Some m # B
      | Throws t \<Rightarrow> \<not> never_throws T
      | Undefined \<Rightarrow> False"
      by (rule snoc.IH)
    show ?thesis unfolding step using ih
      by (cases mid) (auto split: outcome.splits)
  qed
qed

lemma move_loop_append:
  "case move_loop T clk (A @ Some z # map Some post @ B) (Suc (length A)) (length post) (length A) of
     Returns r \<Rightarrow> snd r = A @ map Some post @ Some (if post = [] then z else moved_from T (last post)) # B
   | Throws t \<Rightarrow> \<not> never_throws T
   | Undefined \<Rightarrow> False"
proof (induction post arbitrary: A z clk)
  case Nil
  then show ?case by simp
next
  case (Cons p post)
  let ?buf = "A @ Some z # map Some (p # post) @ B"
  let ?buf' = "(A @ [Some p]) @ Some (moved_from T p) # map Some post @ B"
  have ma: "move_assign T clk (A @ Some z # Some p # map Some post @ B) (Suc (length A)) (length A) =
     (if throws T MoveAssign clk p then Throws (Suc clk, ?buf) else Returns (Suc clk, ?buf'))"
    using move_assign_left[where A = A and z = z and p = p and B = "map Some post @ B"
        and T = T and clk = clk]
    by simp
  show ?case
  proof (cases "throws T MoveAssign clk p")
    case True
    then show ?thesis using throws_not_never[of T MoveAssign clk p] by (simp add: ma)
  next
    case False
    have step: "move_loop T clk ?buf (Suc (length A)) (length (p # post)) (length A) =
                move_loop T (Suc clk) ?buf' (Suc (length (A @ [Some p]))) (length post) (length (A @ [Some p]))"
      using False by (simp add: ma)
    have ih: "case move_loop T (Suc clk) ?buf' (Suc (length (A @ [Some p]))) (length post) (length (A @ [Some p])) of
        Returns r \<Rightarrow> snd r = (A @ [Some p]) @ map Some post
                               @ Some (if post = [] then moved_from T p else moved_from T (last post)) # B
      | Throws t \<Rightarrow> \<not> never_throws T
      | Undefined \<Rightarrow> False"
      by (rule Cons.IH)
    show ?thesis unfolding step using ih
      by (auto split: outcome.splits)
  qed
qed

lemma throws_in_append:
  "throws_in T k clk (xs @ ys) \<longleftrightarrow> throws_in T k clk xs \<or> throws_in T k (clk + length xs) ys"
  by (induction xs arbitrary: clk) auto

lemma transfer_around_vec:
  assumes "length dm1 = length pre" and "length dm2 = length post"
  shows "case transfer_around T clk (map Some pre @ map Some post @ raw) (length pre)
               (length pre + length post) (dm1 @ y # dm2 @ db) of
     Returns r \<Rightarrow> \<not> throws_in T (transfer_kind T) clk (pre @ post) \<and>
        destroy_n (fst (snd r)) 0 (length pre + length post) \<noteq> None \<and>
        snd (snd r) = map Some pre @ y # map Some post @ db
   | Throws t \<Rightarrow> throws_in T (transfer_kind T) clk (pre @ post) \<and>
        (transfer_kind T = CopyConstruct \<longrightarrow> snd t = map Some pre @ map Some post @ raw)
   | Undefined \<Rightarrow> False"
proof (cases "is_nothrow_move_constructible T \<or> \<not> is_copy_constructible T")
  case True
  then have k: "transfer_kind T = MoveConstruct" by (simp add: transfer_kind_def)
  let ?src = "map Some pre @ map Some post @ raw"
  let ?dst = "dm1 @ y # dm2 @ db"
  let ?src1 = "map Some (map (moved_from T) pre) @ map Some post @ raw"
  let ?dst1 = "map Some pre @ y # dm2 @ db"
  have u1: "case uninitialized_move_n T clk ?src 0 (length pre) ?dst 0 of
      Returns r \<Rightarrow> \<not> throws_in T MoveConstruct clk pre \<and> r = (clk + length pre, ?src1, ?dst1)
    | Throws t \<Rightarrow> throws_in T MoveConstruct clk pre
    | Undefined \<Rightarrow> False"
    using uninitialized_move_n_append[where sa = "[]" and da = "[]" and xs = pre and dm = dm1
        and sb = "map Some post @ raw" and db = "y # dm2 @ db" and T = T and clk = clk, OF assms(1)]
    by (simp cong: outcome.case_cong)
  have u2: "case uninitialized_move_n T (clk + length pre) ?src1 (length pre) (length post) ?dst1 (Suc (length pre)) of
      Returns r \<Rightarrow> \<not> throws_in T MoveConstruct (clk + length pre) post \<and>
         r = (clk + length pre + length post,
              map Some (map (moved_from T) pre) @ map Some (map (moved_from T) post) @ raw,
              map Some pre @ y # map Some post @ db)
    | Throws t \<Rightarrow> throws_in T MoveConstruct (clk + length pre) post
    | Undefined \<Rightarrow> False"
    using uninitialized_move_n_append[where sa = "map Some (map (moved_from T) pre)"
        and da = "map Some pre @ [y]" and xs = post and dm = dm2
        and sb = raw and db = db and T = T and clk = "clk + length pre", OF assms(2)]
    by (simp cong: outcome.case_cong)
  have d: "destroy_n (map Some (map (moved_from T) pre) @ map Some (map (moved_from T) post) @ raw) 0
             (length pre + length post) \<noteq> None"
    using destroy_n_append[where sa = "[]" and xs = "map (moved_from T) (pre @ post)" and sb = raw]
    by simp
  show ?thesis
  proof (cases "uninitialized_move_n T clk ?src 0 (length pre) ?dst 0")
    case (Returns r)
    with u1 have r: "r = (clk + length pre, ?src1, ?dst1)" and nt: "\<not> throws_in T MoveConstruct clk pre"
      by simp_all
    show ?thesis
    proof (cases "uninitialized_move_n T (clk + length pre) ?src1 (length pre) (length post) ?dst1 (Suc (length pre))")
      case (Returns r2)
      then show ?thesis using u2 u1 d True k nt \<open>uninitialized_move_n T clk ?src 0 (length pre) ?dst 0 = Returns r\<close> r
        by (simp add: transfer_around_def throws_in_append)
    next
      case (Throws t2)
      then show ?thesis using u2 u1 True k nt \<open>uninitialized_move_n T clk ?src 0 (length pre) ?dst 0 = Returns r\<close> r
        by (simp add: transfer_around_def throws_in_append split: prod.splits)
    next
      case Undefined
      then show ?thesis using u2 by simp
    qed
  next
    case (Throws t)
    then show ?thesis using u1 True k
      by (simp add: transfer_around_def throws_in_append split: prod.splits)
  next
    case Undefined
    then show ?thesis using u1 by simp
  qed
next
  case False
  then have k: "transfer_kind T = CopyConstruct" by (simp add: transfer_kind_def)
  let ?src = "map Some pre @ map Some post @ raw"
  let ?dst = "dm1 @ y # dm2 @ db"
  let ?dst1 = "map Some pre @ y # dm2 @ db"
  have u1: "case uninitialized_copy_n T clk ?src 0 (length pre) ?dst 0 of
      Returns r \<Rightarrow> \<not> throws_in T CopyConstruct clk pre \<and> r = (clk + length pre, ?dst1)
    | Throws t \<Rightarrow> throws_in T CopyConstruct clk pre
    | Undefined \<Rightarrow> False"
    using uninitialized_copy_n_append[where sa = "[]" and da = "[]" and xs = pre and dm = dm1
        and sb = "map Some post @ raw" and db = "y # dm2 @ db" and T = T and clk = clk, OF assms(1)]
    by (simp cong: outcome.case_cong)
  have u2: "case uninitialized_copy_n T (clk + length pre) ?src (length pre) (length post) ?dst1 (Suc (length pre)) of
      Returns r \<Rightarrow> \<not> throws_in T CopyConstruct (clk + length pre) post \<and>
         r = (clk + length pre + length post, map Some pre @ y # map Some post @ db)
    | Throws t \<Rightarrow> throws_in T CopyConstruct (clk + length pre) post
    | Undefined \<Rightarrow> False"
    using uninitialized_copy_n_append[where sa = "map Some pre"
        and da = "map Some pre @ [y]" and xs = post and dm = dm2
        and sb = raw and db = db and T = T and clk = "clk + length pre", OF assms(2)]
    by (simp cong: outcome.case_cong)
  have d: "destroy_n ?src 0 (length pre + length post) \<noteq> None"
    using destroy_n_append[where sa = "[]" and xs = "pre @ post" and sb = raw]
    by simp
  show ?thesis
  proof (cases "uninitialized_copy_n T clk ?src 0 (length pre) ?dst 0")
    case (Returns r)
    with u1 have r: "r = (clk + length pre, ?dst1)" and nt: "\<not> throws_in T CopyConstruct clk pre"
      by simp_all
    show ?thesis
    proof (cases "uninitialized_copy_n T (clk + length pre) ?src (length pre) (length post) ?dst1 (Suc (length pre))")
      case (Returns r2)
      then show ?thesis using u2 u1 d False k nt \<open>uninitialized_copy_n T clk ?src 0 (length pre) ?dst 0 = Returns r\<close> r
        by (simp add: transfer_around_def throws_in_append)
    next
      case (Throws t2)
      then show ?thesis using u2 u1 False k nt \<open>uninitialized_copy_n T clk ?src 0 (length pre) ?dst 0 = Returns r\<close> r
        by (simp add: transfer_around_def throws_in_append split: prod.splits)
    next
      case Undefined
      then show ?thesis using u2 by simp
    qed
  next
    case (Throws t)
    then show ?thesis using u1 False k
      by (simp add: transfer_around_def throws_in_append split: prod.splits)
  next
    case Undefined
    then show ?thesis using u1 by simp
  qed
qed

lemma vec_insert:
  "\<lparr>data_m = \<lparr>buffer_m = map Some pre @ Some x # map Some post @ replicate (c - Suc (length pre + length post)) None,
               capacity_m = c\<rparr>,
     size_m = Suc (length pre + length post)\<rparr> = vec (pre @ x # post) c"
  by (simp add: vec_def)

lemma Vector_update_all [simp]:
  "(v :: 'a Vector)\<lparr>data_m := d, size_m := s\<rparr> = \<lparr>data_m = d, size_m = s\<rparr>"
  by (cases v) simp

lemma grow_capacity:
  "(n::nat) < (if n = 0 then 1 else n * 2)"
  "(if n = 0 then 1 else n * 2) = max 1 (2 * n)"
  by (cases n; simp)+

lemma Emplace_grow:
  "case Emplace T k (length pre) x (clk, vec (pre @ post) (length pre + length post)) of
     Returns r \<Rightarrow> snd (fst r) = vec (pre @ x # post) (max 1 (2 * (length pre + length post)))
        \<and> snd r = length pre
   | Throws t \<Rightarrow> \<not> never_throws T \<and>
        (strong_transfer T \<longrightarrow> snd t = vec (pre @ post) (length pre + length post))
   | Undefined \<Rightarrow> False"
proof -
  let ?n = "length pre + length post"
  let ?v = "vec (pre @ post) ?n"
  define m where "m = (if ?n = 0 then 1 else ?n * 2)"
  have m: "?n < m" "m = max 1 (2 * ?n)" unfolding m_def by (rule grow_capacity)+
  define tl where "tl = replicate (m - Suc ?n) (None :: 'a option)"
  have rep: "replicate m None = replicate (length pre) None @ None # replicate (length post) None @ tl"
  proof -
    have "m = length pre + Suc (length post + (m - Suc ?n))" using m(1) by simp
    then have "replicate m (None :: 'a option) = replicate (length pre + Suc (length post + (m - Suc ?n))) None"
      by (rule arg_cong)
    then show ?thesis unfolding tl_def by (simp only: replicate_add replicate_Suc)
  qed
  let ?nb = "replicate (length pre) None @ Some x # replicate (length post) None @ tl"
  have c: "construct_at T k (Suc clk) (replicate m None) (length pre) x =
     (if throws T k (Suc clk) x then Throws (Suc (Suc clk), replicate m None)
      else Returns (Suc (Suc clk), ?nb))"
    using construct_at_mid[where da = "replicate (length pre) None" and y = None and T = T and k = k
         and clk = "Suc clk" and x = x and db = "replicate (length post) None @ tl"]
    unfolding rep by (simp del: replicate_app_Cons_same)
  let ?src = "map Some pre @ map Some post @ replicate (?n - ?n) None"
  have ga: "GetAddress ?v = ?src" by simp
  have P: "Emplace T k (length pre) x (clk, ?v) =
     (case (case RawMemory_new T clk m of
        Undefined \<Rightarrow> Undefined
      | Throws clk' \<Rightarrow> Throws (clk', ?v)
      | Returns (clk', new_data) \<Rightarrow>
         (case construct_at T k clk' (buffer_m new_data) (length pre) x of
            Undefined \<Rightarrow> Undefined
          | Throws (clk'', buf) \<Rightarrow> Throws (clk'', ?v)
          | Returns (clk'', buf) \<Rightarrow>
             (case transfer_around T clk'' ?src (length pre) ?n buf of
                Undefined \<Rightarrow> Undefined
              | Throws (c2, src) \<Rightarrow> Throws (c2, with_slots ?v src)
              | Returns (c2, src, dst) \<Rightarrow>
                 (case destroy_n src 0 ?n of
                    None \<Rightarrow> Undefined
                  | Some old \<Rightarrow> Returns (c2, ?v\<lparr>data_m := new_data\<lparr>buffer_m := dst\<rparr>\<rparr>))))) of
          Undefined \<Rightarrow> Undefined
        | Throws t \<Rightarrow> Throws t
        | Returns (clk', v') \<Rightarrow> Returns ((clk', v'\<lparr>size_m := size_m v' + 1\<rparr>), length pre))"
    by (simp add: Emplace.simps m_def cong: outcome.case_cong prod.case_cong option.case_cong)
  have t: "case transfer_around T (Suc (Suc clk)) ?src (length pre) ?n ?nb of
     Returns r \<Rightarrow> \<not> throws_in T (transfer_kind T) (Suc (Suc clk)) (pre @ post) \<and>
        destroy_n (fst (snd r)) 0 ?n \<noteq> None \<and>
        snd (snd r) = map Some pre @ Some x # map Some post @ tl
   | Throws t \<Rightarrow> throws_in T (transfer_kind T) (Suc (Suc clk)) (pre @ post) \<and>
        (transfer_kind T = CopyConstruct \<longrightarrow> snd t = ?src)
   | Undefined \<Rightarrow> False"
    by (rule transfer_around_vec) simp_all
  have v: "\<lparr>data_m = \<lparr>buffer_m = map Some pre @ Some x # map Some post @ tl, capacity_m = m\<rparr>,
            size_m = Suc ?n\<rparr> = vec (pre @ x # post) m"
    unfolding tl_def by (rule vec_insert)
  have w: "with_slots ?v ?src = ?v" by (simp add: vec_def with_slots_def)
  consider (alloc) "RawMemory_new T clk m = Throws (Suc clk)" "\<not> never_throws T"
    | (ctor) "RawMemory_new T clk m = Returns (Suc clk, \<lparr>buffer_m = replicate m None, capacity_m = m\<rparr>)"
         "throws T k (Suc clk) x"
    | (transfer) "RawMemory_new T clk m = Returns (Suc clk, \<lparr>buffer_m = replicate m None, capacity_m = m\<rparr>)"
         "\<not> throws T k (Suc clk) x"
    using RawMemory_new_cases[of T clk m] by blast
  then have "case Emplace T k (length pre) x (clk, ?v) of
     Returns r \<Rightarrow> snd (fst r) = vec (pre @ x # post) m \<and> snd r = length pre
   | Throws t \<Rightarrow> \<not> never_throws T \<and> (strong_transfer T \<longrightarrow> snd t = ?v)
   | Undefined \<Rightarrow> False"
  proof cases
    case alloc
    then show ?thesis unfolding P by simp
  next
    case ctor
    then show ?thesis unfolding P using throws_not_never[of T k "Suc clk" x] by (simp add: c)
  next
    case transfer
    show ?thesis
    proof (cases "transfer_around T (Suc (Suc clk)) ?src (length pre) ?n ?nb")
      case (Returns r)
      obtain c2 src dst where r: "r = (c2, src, dst)" by (cases r)
      from t Returns r obtain old where "destroy_n src 0 ?n = Some old"
        and "dst = map Some pre @ Some x # map Some post @ tl" by auto
      then show ?thesis unfolding P using transfer Returns r
        by (simp add: c v del: replicate_app_Cons_same)
    next
      case (Throws t')
      obtain c2 src where t': "t' = (c2, src)" by (cases t')
      from t Throws t' have ti: "throws_in T (transfer_kind T) (Suc (Suc clk)) (pre @ post)"
        and s: "transfer_kind T = CopyConstruct \<longrightarrow> src = ?src" by auto
      have "\<not> never_throws T" using ti never_throws_in[of T "transfer_kind T" "Suc (Suc clk)" "pre @ post"] by blast
      moreover have "strong_transfer T \<longrightarrow> with_slots ?v src = ?v"
        using s w strong_transfer_kind[OF _ ti] by auto
      ultimately show ?thesis unfolding P using transfer Throws t'
        by (simp add: c del: replicate_app_Cons_same with_slots_vec)
    next
      case Undefined
      then show ?thesis using t by simp
    qed
  qed
  then show ?thesis unfolding m(2) .
qed

lemma Emplace_in_place_mid:
  assumes lt: "Suc (length pre + length mid) < c"
  shows "case Emplace_in_place T k (length pre) x clk (vec (pre @ mid @ [l]) c) of
     Returns r \<Rightarrow> snd r = map Some pre @ Some x # map Some mid @ Some l
                           # replicate (c - Suc (Suc (length pre + length mid))) None
   | Throws t \<Rightarrow> \<not> never_throws T
   | Undefined \<Rightarrow> False"
proof -
  let ?n = "Suc (length pre + length mid)"
  let ?v = "vec (pre @ mid @ [l]) c"
  define raw where "raw = replicate (c - Suc ?n) (None :: 'a option)"
  let ?buf0 = "map Some pre @ map Some mid @ Some l # None # raw"
  let ?buf1 = "map Some pre @ map Some mid @ Some l # Some l # raw"
  let ?buf1' = "map Some pre @ map Some mid @ Some (moved_from T l) # Some l # raw"
  have ga: "GetAddress ?v = ?buf0"
    using raw_tail[OF lt] by (simp add: raw_def)
  have facts: "size_m ?v = ?n" "capacity_m (data_m ?v) = c" by simp_all
  have last: "?buf0 ! (length pre + length mid) = Some l" "length ?buf0 = c"
    using lt by (simp_all add: nth_append raw_def)
  have c1: "construct_at T MoveConstruct (Suc clk) ?buf0 ?n l =
     (if throws T MoveConstruct (Suc clk) l then Throws (Suc (Suc clk), ?buf0)
      else Returns (Suc (Suc clk), ?buf1))"
    using construct_at_mid[where da = "map Some pre @ map Some mid @ [Some l]" and y = None
        and db = raw and T = T and k = MoveConstruct and clk = "Suc clk" and x = l]
    by simp
  have upd: "?buf1[length pre + length mid := Some (moved_from T l)] = ?buf1'"
    using list_update_length[of "map Some pre @ map Some mid" "Some l" "Some l # raw" "Some (moved_from T l)"]
    by simp
  have mb: "case move_backward_loop T (Suc (Suc clk)) ?buf1' (length pre) (length mid) ?n of
      Returns r \<Rightarrow> snd r = map Some pre @ Some (if mid = [] then moved_from T l else moved_from T (hd mid))
                            # map Some mid @ Some l # raw
    | Throws t \<Rightarrow> \<not> never_throws T
    | Undefined \<Rightarrow> False"
    using move_backward_loop_append[where A = "map Some pre" and mid = mid and z = "moved_from T l"
        and B = "Some l # raw" and T = T and clk = "Suc (Suc clk)"]
    by simp
  have E: "Emplace_in_place T k (length pre) x clk ?v =
     (if throws T k clk x then Throws (Suc clk, ?buf0)
      else if throws T MoveConstruct (Suc clk) l then Throws (Suc (Suc clk), ?buf0)
      else (case move_backward_loop T (Suc (Suc clk)) ?buf1' (length pre) (length mid) ?n of
              Undefined \<Rightarrow> Undefined
            | Throws t \<Rightarrow> Throws t
            | Returns (clk2, buf2) \<Rightarrow>
               (if length buf2 \<le> length pre then Undefined
                else case buf2 ! length pre of
                  None \<Rightarrow> Undefined
                | Some z \<Rightarrow>
                    if throws T MoveAssign clk2 x then Throws (Suc clk2, buf2)
                    else Returns (Suc clk2, buf2[length pre := Some x]))))"
    unfolding Emplace_in_place_def ga facts using lt last
    by (simp add: c1 upd std_move_backward_def del: vec_simps)
  show ?thesis
  proof (cases "move_backward_loop T (Suc (Suc clk)) ?buf1' (length pre) (length mid) ?n")
    case (Returns r)
    obtain clk2 buf2 where r: "r = (clk2, buf2)" by (cases r)
    from mb Returns r have b: "buf2 = map Some pre @ Some (if mid = [] then moved_from T l else moved_from T (hd mid))
                            # map Some mid @ Some l # raw" by simp
    have n: "buf2 ! length pre = Some (if mid = [] then moved_from T l else moved_from T (hd mid))"
      "\<not> length buf2 \<le> length pre"
      "buf2[length pre := Some x] = map Some pre @ Some x # map Some mid @ Some l # raw"
      unfolding b by (simp_all add: nth_append list_update_append)
    show ?thesis unfolding E using Returns r
        throws_not_never[of T k clk x] throws_not_never[of T MoveConstruct "Suc clk" l]
        throws_not_never[of T MoveAssign clk2 x]
      by (simp add: n) (simp add: raw_def)
  next
    case (Throws t)
    then show ?thesis unfolding E using mb
        throws_not_never[of T k clk x] throws_not_never[of T MoveConstruct "Suc clk" l]
      by simp
  next
    case Undefined
    then show ?thesis using mb by simp
  qed
qed

lemma Emplace_in_place_end:
  assumes lt: "length xs < c"
  shows "case Emplace_in_place T k (length xs) x clk (vec xs c) of
     Returns r \<Rightarrow> snd r = map Some xs @ Some x # replicate (c - Suc (length xs)) None
   | Throws t \<Rightarrow> \<not> never_throws T
   | Undefined \<Rightarrow> False"
proof -
  have c: "construct_at T k clk (GetAddress (vec xs c)) (length xs) x =
     (if throws T k clk x then Throws (Suc clk, GetAddress (vec xs c))
      else Returns (Suc clk, map Some xs @ Some x # replicate (c - Suc (length xs)) None))"
    using construct_at_mid[where da = "map Some xs" and y = None and T = T and k = k
         and clk = clk and x = x and db = "replicate (c - Suc (length xs)) None"]
    by (simp add: raw_tail[OF lt])
  show ?thesis
    using throws_not_never[of T k clk x]
    by (simp add: Emplace_in_place_def c del: vec_simps(4))
qed

lemma Emplace_inplace_unfold:
  "size_m v < Capacity v \<Longrightarrow> indx \<le> size_m v \<Longrightarrow>
   Emplace T k indx x (clk, v) =
     (case Emplace_in_place T k indx x clk v of
        Undefined \<Rightarrow> Undefined
      | Throws (clk', buf) \<Rightarrow>
         (case operator_delete buf (size_m v) of
            None \<Rightarrow> Undefined
          | Some buf' \<Rightarrow> Throws (clk', with_slots v buf'))
      | Returns (clk', buf) \<Rightarrow>
          Returns ((clk', (with_slots v buf)\<lparr>size_m := Suc (size_m v)\<rparr>), indx))"
  by (simp add: Emplace.simps with_slots_def split: outcome.splits option.splits)

lemma Emplace_vec:
  assumes "length xs \<le> c" and "indx \<le> length xs"
  shows "case Emplace T k indx x (clk, vec xs c) of
     Returns r \<Rightarrow>
        snd (fst r) = vec (take indx xs @ x # drop indx xs) (if length xs = c then max 1 (2 * c) else c)
        \<and> snd r = indx
   | Throws t \<Rightarrow> \<not> never_throws T \<and> (strong_transfer T \<and> length xs = c \<longrightarrow> snd t = vec xs c)
   | Undefined \<Rightarrow> \<not> never_throws T \<and> length xs < c"
proof (cases "length xs = c")
  case True
  define pre post where "pre = take indx xs" and "post = drop indx xs"
  have xs: "xs = pre @ post" and i: "indx = length pre" and c: "c = length pre + length post"
    using assms True by (auto simp: pre_def post_def)
  show ?thesis unfolding xs i c
    using Emplace_grow[where pre = pre and post = post and T = T and k = k and x = x and clk = clk]
    by (auto split: outcome.splits)
next
  case False
  then have lt: "length xs < c" using assms by simp
  have U: "Emplace T k indx x (clk, vec xs c) =
     (case Emplace_in_place T k indx x clk (vec xs c) of
        Undefined \<Rightarrow> Undefined
      | Throws (clk', buf) \<Rightarrow>
         (case operator_delete buf (length xs) of
            None \<Rightarrow> Undefined
          | Some buf' \<Rightarrow> Throws (clk', with_slots (vec xs c) buf'))
      | Returns (clk', buf) \<Rightarrow>
          Returns ((clk', (with_slots (vec xs c) buf)\<lparr>size_m := Suc (length xs)\<rparr>), indx))"
    using Emplace_inplace_unfold[of "vec xs c" indx T k x clk] lt assms(2)
    by (simp cong: outcome.case_cong prod.case_cong option.case_cong)
  have "case Emplace_in_place T k indx x clk (vec xs c) of
     Returns r \<Rightarrow> snd r = map Some (take indx xs) @ Some x # map Some (drop indx xs)
                            @ replicate (c - Suc (length xs)) None
   | Throws t \<Rightarrow> \<not> never_throws T
   | Undefined \<Rightarrow> False"
  proof (cases "indx = length xs")
    case True
    then show ?thesis using Emplace_in_place_end[OF lt, where T = T and k = k and x = x and clk = clk]
      by (auto split: outcome.splits)
  next
    case False
    define pre where "pre = take indx xs"
    have "drop indx xs \<noteq> []" using False assms(2) by simp
    then obtain mid l where d: "drop indx xs = mid @ [l]"
      by (cases "drop indx xs" rule: rev_cases) auto
    have xs: "xs = pre @ mid @ [l]" and i: "indx = length pre"
      using d assms(2) append_take_drop_id[of indx xs] by (auto simp: pre_def)
    have lt': "Suc (length pre + length mid) < c" using lt xs by simp
    show ?thesis unfolding xs i
      using Emplace_in_place_mid[OF lt', where T = T and k = k and x = x and clk = clk and l = l]
      by (auto split: outcome.splits)
  qed
  moreover have "\<lparr>data_m = \<lparr>buffer_m = map Some (take indx xs) @ Some x # map Some (drop indx xs)
                            @ replicate (c - Suc (length xs)) None, capacity_m = c\<rparr>,
                   size_m = Suc (length xs)\<rparr> = vec (take indx xs @ x # drop indx xs) c"
    using assms(2) by (simp add: vec_def)
  ultimately show ?thesis
    unfolding U using lt
    by (auto simp: operator_delete_def split: outcome.splits option.splits if_splits)
qed

lemma Erase_vec:
  assumes "Suc (length pre + length post) \<le> c"
  shows "case Erase T (length pre) (clk, vec (pre @ y # post) c) of
     Returns r \<Rightarrow> snd (fst r) = vec (pre @ post) c \<and> snd r = length pre
   | Throws t \<Rightarrow> \<not> never_throws T
   | Undefined \<Rightarrow> False"
proof -
  let ?v = "vec (pre @ y # post) c"
  define raw where "raw = replicate (c - Suc (length pre + length post)) (None :: 'a option)"
  let ?buf = "map Some pre @ Some y # map Some post @ raw"
  have ga: "GetAddress ?v = ?buf" by (simp add: raw_def)
  have ml: "case move_loop T clk ?buf (Suc (length pre)) (length post) (length pre) of
     Returns r \<Rightarrow> snd r = map Some pre @ map Some post @ Some (if post = [] then y else moved_from T (last post)) # raw
   | Throws t \<Rightarrow> \<not> never_throws T
   | Undefined \<Rightarrow> False"
    using move_loop_append[where A = "map Some pre" and z = y and post = post and B = raw
        and T = T and clk = clk]
    by simp
  have E: "Erase T (length pre) (clk, ?v) =
     (case move_loop T clk ?buf (Suc (length pre)) (length post) (length pre) of
        Undefined \<Rightarrow> Undefined
      | Throws (clk', buf) \<Rightarrow> Throws (clk', with_slots ?v buf)
      | Returns (clk', buf) \<Rightarrow>
         (case destroy_at buf (length pre + length post) of
            None \<Rightarrow> Undefined
          | Some buf' \<Rightarrow>
              Returns ((clk', (with_slots ?v buf')\<lparr>size_m := length pre + length post\<rparr>), length pre)))"
    unfolding Erase.simps ga
    by (simp add: std_move_def del: vec_simps(4) with_slots_vec
          cong: outcome.case_cong prod.case_cong option.case_cong)
  have v: "\<lparr>data_m = \<lparr>buffer_m = map Some pre @ map Some post @ None # raw, capacity_m = c\<rparr>,
            size_m = length pre + length post\<rparr> = vec (pre @ post) c"
    using assms by (simp add: vec_def raw_def Suc_diff_Suc replicate_Suc[symmetric] del: replicate_Suc)
  show ?thesis
  proof (cases "move_loop T clk ?buf (Suc (length pre)) (length post) (length pre)")
    case (Returns r)
    obtain clk' buf where r: "r = (clk', buf)" by (cases r)
    define w where "w = (if post = [] then y else moved_from T (last post))"
    from ml Returns r have b: "buf = (map Some pre @ map Some post) @ Some w # raw"
      by (simp add: w_def)
    have "destroy_at buf (length pre + length post) = Some ((map Some pre @ map Some post) @ None # raw)"
      unfolding b using destroy_at_mid[where sa = "map Some pre @ map Some post" and x = w and sb = raw]
      by simp
    then show ?thesis unfolding E using Returns r by (simp add: v)
  next
    case (Throws t)
    then show ?thesis unfolding E using ml by (simp split: prod.splits)
  next
    case Undefined
    then show ?thesis using ml by simp
  qed
qed

section \<open>PushBack and EmplaceBack\<close>

text \<open>
  C2. On a vector that satisfies the invariant, a \<^verbatim>\<open>PushBack\<close> or \<^verbatim>\<open>EmplaceBack\<close> that
  returns has appended the value: the size is the old size plus 1, the element at the old
  size is \<open>x\<close>, the elements before it are the old elements in order, the capacity is
  \<open>max 1 (2 * capacity)\<close> if the vector was full and unchanged otherwise, and
  \<^verbatim>\<open>EmplaceBack\<close> returns the reference to the new element. Neither call is undefined,
  and both return when no operation of \<open>T\<close> throws and no allocation fails.
\<close>

theorem PushBack_EmplaceBack_appends:
  assumes "Vector_inv v"
  shows "(\<forall>clk' v'. PushBack T k x (clk, v) = Returns (clk', v') \<longrightarrow>
            Size v' = Size v + 1 \<and> elements v' ! Size v = x \<and> elements v' = elements v @ [x] \<and>
            Capacity v' = (if Size v = Capacity v then max 1 (2 * Capacity v) else Capacity v) \<and>
            Vector_inv v') \<and>
         (\<forall>clk' v' r. EmplaceBack T x (clk, v) = Returns ((clk', v'), r) \<longrightarrow>
            Size v' = Size v + 1 \<and> elements v' ! Size v = x \<and> elements v' = elements v @ [x] \<and>
            Capacity v' = (if Size v = Capacity v then max 1 (2 * Capacity v) else Capacity v) \<and>
            Vector_inv v' \<and> r = Size v \<and> elements v' ! r = x) \<and>
         PushBack T k x (clk, v) \<noteq> Undefined \<and> EmplaceBack T x (clk, v) \<noteq> Undefined \<and>
         (never_throws T \<longrightarrow>
            (\<exists>s. PushBack T k x (clk, v) = Returns s) \<and> (\<exists>s. EmplaceBack T x (clk, v) = Returns s))"
proof -
  obtain xs c where v: "v = vec xs c" and le: "length xs \<le> c"
    using assms Vector_inv_iff by blast
  have cap: "Suc (length xs) \<le> (if length xs = c then max 1 (2 * c) else c)" using le by auto
  have p: "case PushBack T k x (clk, vec xs c) of
     Returns r \<Rightarrow> snd r = vec (xs @ [x]) (if length xs = c then max 1 (2 * c) else c)
   | Throws t \<Rightarrow> \<not> never_throws T \<and> (strong_transfer T \<or> length xs < c \<longrightarrow> snd t = vec xs c)
   | Undefined \<Rightarrow> False"
    by (rule PushBack_vec[OF le])
  have e: "case EmplaceBack T x (clk, vec xs c) of
     Returns r \<Rightarrow> snd (fst r) = vec (xs @ [x]) (if length xs = c then max 1 (2 * c) else c)
        \<and> snd r = length xs
   | Throws t \<Rightarrow> \<not> never_throws T \<and> (strong_transfer T \<or> length xs < c \<longrightarrow> snd t = vec xs c)
   | Undefined \<Rightarrow> False"
    by (rule EmplaceBack_vec[OF le])
  have A: "\<forall>clk' v'. PushBack T k x (clk, vec xs c) = Returns (clk', v') \<longrightarrow>
            Size v' = Size (vec xs c) + 1 \<and> elements v' ! Size (vec xs c) = x \<and>
            elements v' = elements (vec xs c) @ [x] \<and>
            Capacity v' = (if Size (vec xs c) = Capacity (vec xs c) then max 1 (2 * Capacity (vec xs c))
                           else Capacity (vec xs c)) \<and>
            Vector_inv v'"
    using p cap by (auto simp: Size_def)
  have B: "\<forall>clk' v' r. EmplaceBack T x (clk, vec xs c) = Returns ((clk', v'), r) \<longrightarrow>
            Size v' = Size (vec xs c) + 1 \<and> elements v' ! Size (vec xs c) = x \<and>
            elements v' = elements (vec xs c) @ [x] \<and>
            Capacity v' = (if Size (vec xs c) = Capacity (vec xs c) then max 1 (2 * Capacity (vec xs c))
                           else Capacity (vec xs c)) \<and>
            Vector_inv v' \<and> r = Size (vec xs c) \<and> elements v' ! r = x"
    using e cap by (auto simp: Size_def)
  have C: "PushBack T k x (clk, vec xs c) \<noteq> Undefined"
    and D: "EmplaceBack T x (clk, vec xs c) \<noteq> Undefined"
    using p e by auto
  have F: "never_throws T \<longrightarrow>
            (\<exists>s. PushBack T k x (clk, vec xs c) = Returns s) \<and>
            (\<exists>s. EmplaceBack T x (clk, vec xs c) = Returns s)"
    using p e
    by (cases "PushBack T k x (clk, vec xs c)"; cases "EmplaceBack T x (clk, vec xs c)") auto
  show ?thesis unfolding v by (intro conjI A B C D F)
qed

lemma Size_vec [simp]: "Size (vec xs c) = length xs"
  by (simp add: Size_def)

lemma insert_nth_facts:
  assumes "i \<le> length xs"
  shows "(take i xs @ x # drop i xs) ! i = x"
    and "\<forall>j<i. (take i xs @ x # drop i xs) ! j = xs ! j"
    and "\<forall>j. i \<le> j \<and> j < length xs \<longrightarrow> (take i xs @ x # drop i xs) ! (j + 1) = xs ! j"
  using assms by (auto simp: nth_append min_def)

lemma erase_nth_facts:
  assumes "i < length xs"
  shows "\<forall>j<i. (take i xs @ drop (Suc i) xs) ! j = xs ! j"
    and "\<forall>j. i < j \<and> j < length xs \<longrightarrow> (take i xs @ drop (Suc i) xs) ! (j - 1) = xs ! j"
    and "Suc i < length xs \<longrightarrow> (take i xs @ drop (Suc i) xs) ! i = xs ! Suc i"
  using assms by (auto simp: nth_append min_def)

section \<open>Emplace and Insert\<close>

text \<open>
  C4. On a vector of size \<open>n\<close> that satisfies the invariant and for an index \<open>i \<le> n\<close>,
  an \<^verbatim>\<open>Emplace\<close> or \<^verbatim>\<open>Insert\<close> at \<open>i\<close> that returns leaves a vector of size
  \<open>n + 1\<close> whose element at \<open>i\<close> is the inserted value, whose elements before \<open>i\<close>
  are unchanged and whose elements from \<open>i\<close> on are the old ones one index further; the
  returned iterator is at index \<open>i\<close>. The call returns when no operation of \<open>T\<close>
  throws and no allocation fails.
\<close>

theorem Emplace_inserts:
  assumes "Vector_inv v" and "i \<le> Size v"
  shows "(\<forall>f \<in> {Emplace T k, Insert T, Insert_rvalue T}.
            (\<forall>clk' v' r. f i x (clk, v) = Returns ((clk', v'), r) \<longrightarrow>
               Size v' = Size v + 1 \<and> elements v' ! i = x \<and>
               (\<forall>j<i. elements v' ! j = elements v ! j) \<and>
               (\<forall>j. i \<le> j \<and> j < Size v \<longrightarrow> elements v' ! (j + 1) = elements v ! j) \<and>
               r = i \<and> elements v' = take i (elements v) @ [x] @ drop i (elements v) \<and>
               Vector_inv v') \<and>
            (never_throws T \<longrightarrow> (\<exists>s. f i x (clk, v) = Returns s)))"
proof -
  obtain xs c where v: "v = vec xs c" and le: "length xs \<le> c"
    using assms(1) Vector_inv_iff by blast
  have i: "i \<le> length xs" using assms(2) by (simp add: v)
  have cap: "Suc (length xs) \<le> (if length xs = c then max 1 (2 * c) else c)" using le by auto
  have main: "(\<forall>clk' v' r. Emplace T k' i x (clk, vec xs c) = Returns ((clk', v'), r) \<longrightarrow>
               Size v' = Size (vec xs c) + 1 \<and> elements v' ! i = x \<and>
               (\<forall>j<i. elements v' ! j = elements (vec xs c) ! j) \<and>
               (\<forall>j. i \<le> j \<and> j < Size (vec xs c) \<longrightarrow> elements v' ! (j + 1) = elements (vec xs c) ! j) \<and>
               r = i \<and> elements v' = take i (elements (vec xs c)) @ [x] @ drop i (elements (vec xs c)) \<and>
               Vector_inv v') \<and>
            (never_throws T \<longrightarrow> (\<exists>s. Emplace T k' i x (clk, vec xs c) = Returns s))" for k'
  proof -
    have e: "case Emplace T k' i x (clk, vec xs c) of
       Returns r \<Rightarrow>
          snd (fst r) = vec (take i xs @ x # drop i xs) (if length xs = c then max 1 (2 * c) else c)
          \<and> snd r = i
     | Throws t \<Rightarrow> \<not> never_throws T \<and> (strong_transfer T \<and> length xs = c \<longrightarrow> snd t = vec xs c)
     | Undefined \<Rightarrow> \<not> never_throws T \<and> length xs < c"
      by (rule Emplace_vec[OF le i])
    show ?thesis
      using e cap i insert_nth_facts[OF i, of x]
      by (cases "Emplace T k' i x (clk, vec xs c)") (auto simp: min_def)
  qed
  have I: "Insert T = Emplace T CopyConstruct" "Insert_rvalue T = Emplace T MoveConstruct"
    by (intro ext, simp add: Insert_def Insert_rvalue_def)+
  show ?thesis unfolding v
  proof (intro ballI)
    fix f assume "f \<in> {Emplace T k, Insert T, Insert_rvalue T}"
    then obtain k' where f: "f = Emplace T k'" unfolding I by blast
    show "(\<forall>clk' v' r. f i x (clk, vec xs c) = Returns ((clk', v'), r) \<longrightarrow>
               Size v' = Size (vec xs c) + 1 \<and> elements v' ! i = x \<and>
               (\<forall>j<i. elements v' ! j = elements (vec xs c) ! j) \<and>
               (\<forall>j. i \<le> j \<and> j < Size (vec xs c) \<longrightarrow> elements v' ! (j + 1) = elements (vec xs c) ! j) \<and>
               r = i \<and> elements v' = take i (elements (vec xs c)) @ [x] @ drop i (elements (vec xs c)) \<and>
               Vector_inv v') \<and>
            (never_throws T \<longrightarrow> (\<exists>s. f i x (clk, vec xs c) = Returns s))"
      unfolding f by (rule main)
  qed
qed

lemma Erase_vec_at:
  assumes le: "length xs \<le> c" and i: "i < length xs"
  shows "case Erase T i (clk, vec xs c) of
     Returns r \<Rightarrow> snd (fst r) = vec (take i xs @ drop (Suc i) xs) c \<and> snd r = i
   | Throws t \<Rightarrow> \<not> never_throws T
   | Undefined \<Rightarrow> False"
proof -
  define pre post where "pre = take i xs" and "post = drop (Suc i) xs"
  have xs: "xs = pre @ xs ! i # post" and lp: "length pre = i"
    using i by (simp_all add: pre_def post_def id_take_nth_drop[symmetric])
  have le': "Suc (length pre + length post) \<le> c"
    using le i by (simp add: pre_def post_def)
  show ?thesis
    using Erase_vec[OF le', where T = T and clk = clk and y = "xs ! i"]
    unfolding xs[symmetric] lp unfolding pre_def post_def .
qed

section \<open>Erase\<close>

text \<open>
  C5. On a vector of size \<open>n\<close> that satisfies the invariant and for an index \<open>i < n\<close>,
  an \<^verbatim>\<open>Erase\<close> at \<open>i\<close> that returns leaves a vector of size \<open>n - 1\<close> whose
  elements before \<open>i\<close> are unchanged and whose elements after \<open>i\<close> are one index
  lower; the capacity is unchanged; the returned iterator is at index \<open>i\<close>, which holds
  the successor of the erased element, or is the end if the last element was erased. The
  call is never undefined and returns when no operation of \<open>T\<close> throws.
\<close>

theorem Erase_removes:
  assumes "Vector_inv v" and "i < Size v"
  shows "(\<forall>clk' v' r. Erase T i (clk, v) = Returns ((clk', v'), r) \<longrightarrow>
            Size v' = Size v - 1 \<and>
            (\<forall>j<i. elements v' ! j = elements v ! j) \<and>
            (\<forall>j. i < j \<and> j < Size v \<longrightarrow> elements v' ! (j - 1) = elements v ! j) \<and>
            Capacity v' = Capacity v \<and> r = i \<and>
            (i + 1 < Size v \<longrightarrow> elements v' ! r = elements v ! (i + 1)) \<and>
            (i + 1 = Size v \<longrightarrow> r = Size v') \<and>
            elements v' = take i (elements v) @ drop (Suc i) (elements v) \<and>
            Vector_inv v') \<and>
         Erase T i (clk, v) \<noteq> Undefined \<and>
         (never_throws T \<longrightarrow> (\<exists>s. Erase T i (clk, v) = Returns s))"
proof -
  obtain xs c where v: "v = vec xs c" and le: "length xs \<le> c"
    using assms(1) Vector_inv_iff by blast
  have i: "i < length xs" using assms(2) by (simp add: v)
  have e: "case Erase T i (clk, vec xs c) of
     Returns r \<Rightarrow> snd (fst r) = vec (take i xs @ drop (Suc i) xs) c \<and> snd r = i
   | Throws t \<Rightarrow> \<not> never_throws T
   | Undefined \<Rightarrow> False"
    by (rule Erase_vec_at[OF le i])
  have len: "length (take i xs @ drop (Suc i) xs) = length xs - 1" "length xs - 1 \<le> c"
    using i le by auto
  have A: "\<forall>clk' v' r. Erase T i (clk, vec xs c) = Returns ((clk', v'), r) \<longrightarrow>
            Size v' = Size (vec xs c) - 1 \<and>
            (\<forall>j<i. elements v' ! j = elements (vec xs c) ! j) \<and>
            (\<forall>j. i < j \<and> j < Size (vec xs c) \<longrightarrow> elements v' ! (j - 1) = elements (vec xs c) ! j) \<and>
            Capacity v' = Capacity (vec xs c) \<and> r = i \<and>
            (i + 1 < Size (vec xs c) \<longrightarrow> elements v' ! r = elements (vec xs c) ! (i + 1)) \<and>
            (i + 1 = Size (vec xs c) \<longrightarrow> r = Size v') \<and>
            elements v' = take i (elements (vec xs c)) @ drop (Suc i) (elements (vec xs c)) \<and>
            Vector_inv v'"
    using e i len erase_nth_facts[OF i]
    by (auto simp del: length_append length_take length_drop)
  have B: "Erase T i (clk, vec xs c) \<noteq> Undefined" using e by auto
  have C: "never_throws T \<longrightarrow> (\<exists>s. Erase T i (clk, vec xs c) = Returns s)"
    using e by (cases "Erase T i (clk, vec xs c)") auto
  show ?thesis unfolding v by (intro conjI A B C)
qed

section \<open>Reserve\<close>


section \<open>Exceptions during reallocation\<close>


lemma never_throws_T_plain: "never_throws T_plain"
  by (simp add: never_throws_def T_plain_def)

theorem PushBack_EmplaceBack_appends_witness:
  "Vector_inv (vec [1, 2 :: nat] 2) \<and> Vector_inv (vec [1, 2 :: nat] 3) \<and> never_throws T_plain \<and>
   (\<exists>clk' v'. PushBack T_plain CopyConstruct 3 (0, vec [1, 2] 2) = Returns (clk', v') \<and>
      elements v' = [1, 2, 3] \<and> Capacity v' = 4) \<and>
   (\<exists>clk' v'. EmplaceBack T_plain 3 (0, vec [1, 2] 3) = Returns ((clk', v'), 2) \<and>
      elements v' = [1, 2, 3] \<and> Capacity v' = 3)"
proof -
  have h1: "Vector_inv (vec [1, 2 :: nat] 2)" and h2: "Vector_inv (vec [1, 2 :: nat] 3)" by simp_all
  note t1 = PushBack_EmplaceBack_appends[OF h1, where T = T_plain and k = CopyConstruct and x = 3 and clk = 0]
  note t2 = PushBack_EmplaceBack_appends[OF h2, where T = T_plain and k = CopyConstruct and x = 3 and clk = 0]
  from t1 never_throws_T_plain obtain clk1 v1
    where r1: "PushBack T_plain CopyConstruct 3 (0, vec [1, 2] 2) = Returns (clk1, v1)" by fastforce
  from t2 never_throws_T_plain obtain clk2 v2 i2
    where r2: "EmplaceBack T_plain 3 (0, vec [1, 2] 3) = Returns ((clk2, v2), i2)" by fastforce
  from t1 r1 have p1: "elements v1 = [1, 2, 3] \<and> Capacity v1 = 4" by simp
  from t2 r2 have p2: "elements v2 = [1, 2, 3] \<and> Capacity v2 = 3 \<and> i2 = 2" by simp
  show ?thesis using h1 h2 never_throws_T_plain r1 r2 p1 p2 by blast
qed

theorem Emplace_inserts_witness:
  "Vector_inv (vec [1, 2, 3 :: nat] 4) \<and> 1 \<le> Size (vec [1, 2, 3 :: nat] 4) \<and> never_throws T_plain \<and>
   (\<exists>clk' v'. Insert T_plain 1 9 (0, vec [1, 2, 3] 4) = Returns ((clk', v'), 1) \<and>
      elements v' = [1, 9, 2, 3] \<and> Size v' = 4)"
proof -
  have h1: "Vector_inv (vec [1, 2, 3 :: nat] 4)" and h2: "1 \<le> Size (vec [1, 2, 3 :: nat] 4)"
    by simp_all
  have "(\<forall>clk' v' r. Insert T_plain 1 9 (0, vec [1, 2, 3] 4) = Returns ((clk', v'), r) \<longrightarrow>
               Size v' = Size (vec [1, 2, 3 :: nat] 4) + 1 \<and> r = 1 \<and>
               elements v' = take 1 (elements (vec [1, 2, 3] 4)) @ [9] @ drop 1 (elements (vec [1, 2, 3] 4))) \<and>
        (never_throws T_plain \<longrightarrow> (\<exists>s. Insert T_plain 1 9 (0, vec [1, 2, 3] 4) = Returns s))"
    using Emplace_inserts[OF h1 h2, where T = T_plain and k = Construct and x = 9 and clk = 0]
    by blast
  then obtain clk1 v1 r1
    where r: "Insert T_plain 1 9 (0, vec [1, 2, 3] 4) = Returns ((clk1, v1), r1)"
      and p: "Size v1 = Size (vec [1, 2, 3 :: nat] 4) + 1 \<and> r1 = 1 \<and>
               elements v1 = take 1 (elements (vec [1, 2, 3] 4)) @ [9] @ drop 1 (elements (vec [1, 2, 3] 4))"
    using never_throws_T_plain by fastforce
  from p have "elements v1 = [1, 9, 2, 3] \<and> Size v1 = 4 \<and> r1 = 1" by simp
  then show ?thesis using h1 h2 never_throws_T_plain r by blast
qed

theorem Erase_removes_witness:
  "Vector_inv (vec [1, 9, 2, 3 :: nat] 4) \<and> 0 < Size (vec [1, 9, 2, 3 :: nat] 4) \<and>
   never_throws T_plain \<and>
   (\<exists>clk' v'. Erase T_plain 0 (0, vec [1, 9, 2, 3] 4) = Returns ((clk', v'), 0) \<and>
      elements v' = [9, 2, 3] \<and> Size v' = 3 \<and> Capacity v' = 4)"
proof -
  have h1: "Vector_inv (vec [1, 9, 2, 3 :: nat] 4)" and h2: "0 < Size (vec [1, 9, 2, 3 :: nat] 4)"
    by simp_all
  note t = Erase_removes[OF h1 h2, where T = T_plain and clk = 0]
  from t never_throws_T_plain obtain clk1 v1 r1
    where r: "Erase T_plain 0 (0, vec [1, 9, 2, 3] 4) = Returns ((clk1, v1), r1)" by fastforce
  from t r have "elements v1 = [9, 2, 3] \<and> Size v1 = 3 \<and> Capacity v1 = 4 \<and> r1 = 0" by simp
  then show ?thesis using h1 h2 never_throws_T_plain r by blast
qed





section \<open>Exceptions during the in-place Emplace\<close>

text \<open>
  C3 (does not hold on the code). The claim: when the shift or the final assignment of
  the in-place \<^verbatim>\<open>Emplace\<close> throws, no element is lost and the vector stays valid. On
  the vector \<open>[1, 2, 3]\<close> of capacity 4, with an element type whose assignment throws
  on the value 1, \<^verbatim>\<open>Emplace\<close> at index 0 moves 3 into the slot at \<^verbatim>\<open>end()\<close> and 2
  one slot to the right, then the assignment of 1 throws. \<^verbatim>\<open>size_\<close> is still 3, so
  the live range is \<open>[1, 2, 2]\<close> and 3 is outside it; the handler then calls
  \<^verbatim>\<open>operator delete\<close> on a pointer into the middle of the block, which is undefined.
\<close>

theorem Emplace_in_place_throw_loses_element:
  "Vector_inv (vec [1, 2, 3 :: nat] 4) \<and>
   Emplace_in_place T_assign_throws Construct 0 7 0 (vec [1, 2, 3] 4)
     = Throws (4, [Some 1, Some 2, Some 2, Some 3]) \<and>
   map the (take (Size (vec [1, 2, 3 :: nat] 4)) [Some 1, Some 2, Some 2, Some (3 :: nat)]) = [1, 2, 2] \<and>
   operator_delete [Some 1, Some 2, Some 2, Some (3 :: nat)] (Size (vec [1, 2, 3 :: nat] 4)) = None \<and>
   Emplace T_assign_throws Construct 0 7 (0, vec [1, 2, 3] 4) = Undefined"
proof -
  have a: "Emplace_in_place T_assign_throws Construct 0 7 0 (vec [1, 2, 3] 4)
     = Throws (4, [Some 1, Some 2, Some 2, Some 3])" by code_simp
  have b: "Emplace T_assign_throws Construct 0 7 (0, vec [1, 2, 3] 4) = Undefined" by code_simp
  have c: "operator_delete [Some 1, Some 2, Some 2, Some (3 :: nat)] (Size (vec [1, 2, 3 :: nat] 4)) = None"
    by (simp add: operator_delete_def)
  show ?thesis using a b c by simp
qed

section \<open>Constructors, Resize and Swap\<close>

lemma copy_assign_mid:
  "copy_assign T clk (sa @ Some x # sb) (length sa) (da @ Some y # db) (length da) =
     (if throws T CopyAssign clk x then Throws (Suc clk, da @ Some y # db)
      else Returns (Suc clk, da @ Some x # db))"
  by (simp add: copy_assign_def)

lemma copy_loop_append:
  "length ys = length xs \<Longrightarrow>
   (case copy_loop T clk (sa @ map Some xs @ sb) (length sa) (length xs)
           (da @ map Some ys @ db) (length da) of
      Returns r \<Rightarrow> snd r = da @ map Some xs @ db
    | Throws t \<Rightarrow> \<not> never_throws T
    | Undefined \<Rightarrow> False)"
proof (induction xs arbitrary: sa da ys clk)
  case Nil
  then show ?case by simp
next
  case (Cons x xs)
  from Cons.prems obtain y ys' where ys: "ys = y # ys'" and l: "length ys' = length xs"
    by (cases ys) auto
  have ca: "copy_assign T clk (sa @ Some x # map Some xs @ sb) (length sa)
              (da @ Some y # map Some ys' @ db) (length da) =
     (if throws T CopyAssign clk x then Throws (Suc clk, da @ Some y # map Some ys' @ db)
      else Returns (Suc clk, da @ Some x # map Some ys' @ db))"
    by (rule copy_assign_mid)
  show ?case
  proof (cases "throws T CopyAssign clk x")
    case True
    then show ?thesis using throws_not_never[of T CopyAssign clk x] by (simp add: ys ca)
  next
    case False
    have step: "copy_loop T clk (sa @ map Some (x # xs) @ sb) (length sa) (length (x # xs))
                  (da @ map Some ys @ db) (length da) =
                copy_loop T (Suc clk) ((sa @ [Some x]) @ map Some xs @ sb) (length (sa @ [Some x]))
                  (length xs) ((da @ [Some x]) @ map Some ys' @ db) (length (da @ [Some x]))"
      using False by (simp add: ys ca)
    have ih: "case copy_loop T (Suc clk) ((sa @ [Some x]) @ map Some xs @ sb) (length (sa @ [Some x]))
                  (length xs) ((da @ [Some x]) @ map Some ys' @ db) (length (da @ [Some x])) of
        Returns r \<Rightarrow> snd r = (da @ [Some x]) @ map Some xs @ db
      | Throws t \<Rightarrow> \<not> never_throws T
      | Undefined \<Rightarrow> False"
      by (rule Cons.IH[OF l])
    show ?thesis unfolding step using ih by (auto split: outcome.splits)
  qed
qed





lemma Vector_copy_vec:
  assumes "length xs \<le> c"
  shows "case Vector_copy T clk (vec xs c) of
     Returns r \<Rightarrow> snd r = vec xs (length xs)
   | Throws t \<Rightarrow> \<not> never_throws T
   | Undefined \<Rightarrow> False"
proof -
  have u: "case uninitialized_copy_n T (Suc clk) (GetAddress (vec xs c)) 0 (length xs)
             (replicate (length xs) None) 0 of
      Returns r \<Rightarrow> \<not> throws_in T CopyConstruct (Suc clk) xs \<and> r = (Suc clk + length xs, map Some xs)
    | Throws t \<Rightarrow> throws_in T CopyConstruct (Suc clk) xs
    | Undefined \<Rightarrow> False"
    using uninitialized_copy_n_append[where sa = "[]" and da = "[]" and xs = xs
        and dm = "replicate (length xs) None" and db = "[]" and T = T and clk = "Suc clk"
        and sb = "replicate (c - length xs) None"]
    by (simp cong: outcome.case_cong)
  show ?thesis
    using RawMemory_new_cases[of T clk "length xs"] u
      never_throws_in[of T CopyConstruct "Suc clk" xs]
    by (auto simp: Vector_copy_def vec_def simp del: vec_simps(4) split: outcome.splits)
qed

lemma std_swap_eq:
  assumes "\<And>ob f. get (put f ob) = f" and "\<And>ob. put (get ob) ob = ob"
    and "\<And>ob f g. put f (put g ob) = put f ob"
  shows "std_swap get put p q st = st(p := put (get (st q)) (st p), q := put (get (st p)) (st q))"
  using assms by (auto simp: std_swap_def Let_def fun_eq_iff)

lemma Swap_eq: "Swap a b st = st(a := st b, b := st a)"
proof -
  have 1: "std_swap (\<lambda>v. buffer_m (data_m v)) (\<lambda>b v. v\<lparr>data_m := (data_m v)\<lparr>buffer_m := b\<rparr>\<rparr>) a b st
      = st(a := (st a)\<lparr>data_m := (data_m (st a))\<lparr>buffer_m := buffer_m (data_m (st b))\<rparr>\<rparr>,
           b := (st b)\<lparr>data_m := (data_m (st b))\<lparr>buffer_m := buffer_m (data_m (st a))\<rparr>\<rparr>)" (is "_ = ?s1")
    by (rule std_swap_eq) simp_all
  have 2: "std_swap (\<lambda>v. capacity_m (data_m v)) (\<lambda>c v. v\<lparr>data_m := (data_m v)\<lparr>capacity_m := c\<rparr>\<rparr>) a b ?s1
      = st(a := (st a)\<lparr>data_m := data_m (st b)\<rparr>, b := (st b)\<lparr>data_m := data_m (st a)\<rparr>)" (is "_ = ?s2")
    by (subst std_swap_eq) (auto simp: fun_eq_iff)
  have 3: "std_swap size_m (\<lambda>n v. v\<lparr>size_m := n\<rparr>) a b ?s2 = st(a := st b, b := st a)"
    by (subst std_swap_eq) (auto simp: fun_eq_iff)
  show ?thesis unfolding Swap_def RawMemory_Swap_def 1 2 3 ..
qed

lemma raw_split:
  "n \<le> m \<Longrightarrow> m \<le> c \<Longrightarrow>
   replicate (c - n) (None :: 'a option) = replicate (m - n) None @ replicate (c - m) None"
  by (simp flip: replicate_add)




lemma assign_reuse_grow:
  assumes "length as \<le> length bs" and "length bs \<le> ca"
  shows "case (case std_copy T clk (GetAddress (vec bs cb)) 0 (length as) (GetAddress (vec as ca)) 0 of
                 Undefined \<Rightarrow> Undefined
               | Throws t \<Rightarrow> Throws t
               | Returns (clk', buf) \<Rightarrow>
                   uninitialized_copy_n T clk' (GetAddress (vec bs cb)) (length as)
                     (length bs - length as) buf (length as)) of
     Returns r \<Rightarrow> snd r = map Some bs @ replicate (ca - length bs) None
   | Throws t \<Rightarrow> \<not> never_throws T
   | Undefined \<Rightarrow> False"
proof -
  define b1 b2 where "b1 = take (length as) bs" and "b2 = drop (length as) bs"
  have bs: "bs = b1 @ b2" and l1: "length b1 = length as" and l2: "length b2 = length bs - length as"
    using assms by (simp_all add: b1_def b2_def)
  define rawb where "rawb = replicate (cb - length bs) (None :: 'a option)"
  define rawa where "rawa = replicate (ca - length bs) (None :: 'a option)"
  have gb: "GetAddress (vec bs cb) = map Some b1 @ map Some b2 @ rawb"
    by (simp add: bs rawb_def)
  have ga: "GetAddress (vec as ca) = map Some as @ replicate (length b2) None @ rawa"
    using raw_split[OF assms, where 'a = 'a] by (simp add: l2 rawa_def)
  have sc: "case copy_loop T clk (map Some b1 @ map Some b2 @ rawb) 0 (length as)
                 (map Some as @ replicate (length b2) None @ rawa) 0 of
      Returns r \<Rightarrow> snd r = map Some b1 @ replicate (length b2) None @ rawa
    | Throws t \<Rightarrow> \<not> never_throws T
    | Undefined \<Rightarrow> False"
    using copy_loop_append[where sa = "[]" and xs = b1 and ys = as and da = "[]" and T = T and clk = clk
        and sb = "map Some b2 @ rawb" and db = "replicate (length b2) None @ rawa"] l1
    by (simp cong: outcome.case_cong)
  have uc: "\<And>clk'. case uninitialized_copy_n T clk' (map Some b1 @ map Some b2 @ rawb) (length as)
                 (length b2) (map Some b1 @ replicate (length b2) None @ rawa) (length as) of
      Returns r \<Rightarrow> \<not> throws_in T CopyConstruct clk' b2 \<and> r = (clk' + length b2, map Some b1 @ map Some b2 @ rawa)
    | Throws t \<Rightarrow> throws_in T CopyConstruct clk' b2
    | Undefined \<Rightarrow> False"
    using uninitialized_copy_n_append[where sa = "map Some b1" and xs = b2 and da = "map Some b1"
        and dm = "replicate (length b2) None" and T = T and sb = rawb and db = rawa] l1
    by simp
  show ?thesis
  proof (cases "copy_loop T clk (map Some b1 @ map Some b2 @ rawb) 0 (length as)
                 (map Some as @ replicate (length b2) None @ rawa) 0")
    case (Returns r)
    obtain clk' buf where r: "r = (clk', buf)" by (cases r)
    have buf: "buf = map Some b1 @ replicate (length b2) None @ rawa" using sc Returns r by simp
    have mb: "map Some bs = map Some b1 @ map Some b2" unfolding bs by simp
    show ?thesis unfolding gb ga
      using Returns r buf uc[of clk'] never_throws_in[of T CopyConstruct clk' b2]
      by (auto simp: std_copy_def l2[symmetric] mb rawa_def split: outcome.splits)
  next
    case (Throws t)
    then show ?thesis unfolding gb ga using sc by (simp add: std_copy_def)
  next
    case Undefined
    then show ?thesis using sc by simp
  qed
qed

lemma assign_reuse_shrink:
  assumes "length bs < length as" and "length as \<le> ca"
  shows "case (case std_copy T clk (GetAddress (vec bs cb)) 0 (length bs) (GetAddress (vec as ca)) 0 of
                 Undefined \<Rightarrow> Undefined
               | Throws t \<Rightarrow> Throws t
               | Returns (clk', buf) \<Rightarrow>
                  (case destroy_n buf (length bs) (length as - length bs) of
                     None \<Rightarrow> Undefined
                   | Some buf' \<Rightarrow> Returns (clk', buf'))) of
     Returns r \<Rightarrow> snd r = map Some bs @ replicate (ca - length bs) None
   | Throws t \<Rightarrow> \<not> never_throws T
   | Undefined \<Rightarrow> False"
proof -
  define a1 a2 where "a1 = take (length bs) as" and "a2 = drop (length bs) as"
  have as: "as = a1 @ a2" and l1: "length a1 = length bs" and l2: "length a2 = length as - length bs"
    using assms by (simp_all add: a1_def a2_def)
  define rawb where "rawb = replicate (cb - length bs) (None :: 'a option)"
  define rawa where "rawa = replicate (ca - length as) (None :: 'a option)"
  have gb: "GetAddress (vec bs cb) = map Some bs @ rawb" by (simp add: rawb_def)
  have ga: "GetAddress (vec as ca) = map Some a1 @ map Some a2 @ rawa"
    by (simp add: as rawa_def)
  have sc: "case copy_loop T clk (map Some bs @ rawb) 0 (length bs) (map Some a1 @ map Some a2 @ rawa) 0 of
      Returns r \<Rightarrow> snd r = map Some bs @ map Some a2 @ rawa
    | Throws t \<Rightarrow> \<not> never_throws T
    | Undefined \<Rightarrow> False"
    using copy_loop_append[where sa = "[]" and xs = bs and ys = a1 and da = "[]" and T = T and clk = clk
        and sb = rawb and db = "map Some a2 @ rawa"] l1
    by (simp cong: outcome.case_cong)
  have d: "destroy_n (map Some bs @ map Some a2 @ rawa) (length bs) (length a2)
      = Some (map Some bs @ replicate (length a2) None @ rawa)"
    using destroy_n_append[where sa = "map Some bs" and xs = a2 and sb = rawa] by simp
  have fin: "replicate (length a2) None @ rawa = replicate (ca - length bs) (None :: 'a option)"
    using assms by (simp add: l2 rawa_def flip: replicate_add)
  show ?thesis
  proof (cases "copy_loop T clk (map Some bs @ rawb) 0 (length bs) (map Some a1 @ map Some a2 @ rawa) 0")
    case (Returns r)
    obtain clk' buf where r: "r = (clk', buf)" by (cases r)
    have buf: "buf = map Some bs @ map Some a2 @ rawa" using sc Returns r by simp
    show ?thesis unfolding gb ga
      using Returns r buf d fin by (simp add: std_copy_def l2[symmetric])
  next
    case (Throws t)
    then show ?thesis unfolding gb ga using sc by (simp add: std_copy_def)
  next
    case Undefined
    then show ?thesis using sc by simp
  qed
qed

lemma assign_copy_vec:
  assumes ne: "this \<noteq> other"
    and a: "st this = vec as ca" "length as \<le> ca"
    and b: "st other = vec bs cb" "length bs \<le> cb"
  shows "case assign_copy T this other (clk, st) of
     Returns r \<Rightarrow> snd r = st(this := vec bs (if length bs \<le> ca then ca else length bs))
   | Throws t \<Rightarrow> \<not> never_throws T \<and> (\<forall>p. p \<noteq> this \<longrightarrow> snd t p = st p) \<and>
        (ca < length bs \<longrightarrow> snd t = st)
   | Undefined \<Rightarrow> False"
proof (cases "length bs \<le> ca")
  case True
  have v: "\<lparr>data_m = \<lparr>buffer_m = map Some bs @ replicate (ca - length bs) None, capacity_m = ca\<rparr>,
            size_m = length bs\<rparr> = vec bs ca" by (simp add: vec_def)
  show ?thesis
  proof (cases "length as \<le> length bs")
    case le: True
    show ?thesis
      using assign_reuse_grow[OF le True, where T = T and clk = clk and cb = cb] ne True le
      unfolding assign_copy.simps a(1) b(1)
      by (auto simp: v split: outcome.splits simp del: vec_simps(4))
  next
    case False
    then have lt: "length bs < length as" by simp
    show ?thesis
      using assign_reuse_shrink[OF lt a(2), where T = T and clk = clk and cb = cb] ne True lt
      unfolding assign_copy.simps a(1) b(1)
      by (auto simp: v split: outcome.splits simp del: vec_simps(4))
  qed
next
  case False
  have d: "destroy_n (GetAddress (vec as ca)) 0 (length as) \<noteq> None"
    using destroy_n_append[where sa = "[]" and xs = as and sb = "replicate (ca - length as) None"]
    by simp
  show ?thesis
    using Vector_copy_vec[OF b(2), where T = T and clk = clk] ne False d
    unfolding assign_copy.simps a(1) b(1)
    by (auto split: outcome.splits simp del: vec_simps(4))
qed

section \<open>Copy and move assignment\<close>

text \<open>
  C7. For two different vectors that satisfy the invariant, a copy assignment
  \<open>this = other\<close> that returns leaves \<open>this\<close> with the size and the elements of
  \<open>other\<close> and every other object, \<open>other\<close> among them, unchanged; the capacity of
  \<open>this\<close> is unchanged when the size of \<open>other\<close> fits in it, and is the size of
  \<open>other\<close> otherwise. When the call throws, the other objects are unchanged, and
  \<open>this\<close> too if the size of \<open>other\<close> exceeded its capacity. The call is never
  undefined and returns when no operation of \<open>T\<close> throws and no allocation fails.
\<close>

theorem assign_copy_copies:
  assumes "this \<noteq> other" and "Vector_inv (st this)" and "Vector_inv (st other)"
  shows "(\<forall>clk' st'. assign_copy T this other (clk, st) = Returns (clk', st') \<longrightarrow>
            Size (st' this) = Size (st other) \<and> elements (st' this) = elements (st other) \<and>
            (\<forall>p. p \<noteq> this \<longrightarrow> st' p = st p) \<and>
            (Size (st other) \<le> Capacity (st this) \<longrightarrow> Capacity (st' this) = Capacity (st this)) \<and>
            (Capacity (st this) < Size (st other) \<longrightarrow> Capacity (st' this) = Size (st other)) \<and>
            Vector_inv (st' this)) \<and>
         (\<forall>clk' st'. assign_copy T this other (clk, st) = Throws (clk', st') \<longrightarrow>
            (\<forall>p. p \<noteq> this \<longrightarrow> st' p = st p) \<and>
            (Capacity (st this) < Size (st other) \<longrightarrow> st' = st)) \<and>
         assign_copy T this other (clk, st) \<noteq> Undefined \<and>
         (never_throws T \<longrightarrow> (\<exists>s. assign_copy T this other (clk, st) = Returns s))"
proof -
  obtain as ca where a: "st this = vec as ca" "length as \<le> ca"
    using assms(2) Vector_inv_iff by blast
  obtain bs cb where b: "st other = vec bs cb" "length bs \<le> cb"
    using assms(3) Vector_inv_iff by blast
  note ac = assign_copy_vec[OF assms(1) a b, where T = T and clk = clk]
  have A: "\<forall>clk' st'. assign_copy T this other (clk, st) = Returns (clk', st') \<longrightarrow>
            Size (st' this) = Size (vec bs cb) \<and> elements (st' this) = elements (vec bs cb) \<and>
            (\<forall>p. p \<noteq> this \<longrightarrow> st' p = st p) \<and>
            (Size (vec bs cb) \<le> Capacity (vec as ca) \<longrightarrow> Capacity (st' this) = Capacity (vec as ca)) \<and>
            (Capacity (vec as ca) < Size (vec bs cb) \<longrightarrow> Capacity (st' this) = Size (vec bs cb)) \<and>
            Vector_inv (st' this)"
    using ac by auto
  have B: "\<forall>clk' st'. assign_copy T this other (clk, st) = Throws (clk', st') \<longrightarrow>
            (\<forall>p. p \<noteq> this \<longrightarrow> st' p = st p) \<and>
            (Capacity (vec as ca) < Size (vec bs cb) \<longrightarrow> st' = st)"
    using ac by auto
  have C: "assign_copy T this other (clk, st) \<noteq> Undefined" using ac by auto
  have D: "never_throws T \<longrightarrow> (\<exists>s. assign_copy T this other (clk, st) = Returns s)"
    using ac by (cases "assign_copy T this other (clk, st)") auto
  show ?thesis unfolding a(1) b(1) by (intro conjI A B C D)
qed

theorem assign_copy_copies_witness:
  "(0 :: nat) \<noteq> 1 \<and>
   Vector_inv (((\<lambda>p. Vector_default)(0 := vec [1, 2, 3 :: nat] 4, 1 := vec [7, 8] 2)) 0) \<and>
   Vector_inv (((\<lambda>p. Vector_default)(0 := vec [1, 2, 3 :: nat] 4, 1 := vec [7, 8] 2)) 1) \<and>
   never_throws T_plain \<and>
   (\<exists>clk' st'. assign_copy T_plain 0 1 (0, (\<lambda>p. Vector_default)(0 := vec [1, 2, 3] 4, 1 := vec [7, 8] 2))
        = Returns (clk', st') \<and>
      elements (st' 0) = [7, 8] \<and> Capacity (st' 0) = 4 \<and> st' 1 = vec [7, 8] 2) \<and>
   (\<exists>clk' st'. assign_copy T_plain 1 0 (0, (\<lambda>p. Vector_default)(0 := vec [1, 2, 3] 4, 1 := vec [7, 8] 2))
        = Returns (clk', st') \<and>
      elements (st' 1) = [1, 2, 3] \<and> Capacity (st' 1) = 3 \<and> st' 0 = vec [1, 2, 3] 4)"
proof -
  let ?st = "(\<lambda>p. Vector_default)(0 := vec [1, 2, 3 :: nat] 4, 1 := vec [7, 8] 2)"
  have h0: "(0 :: nat) \<noteq> 1" and h0': "(1 :: nat) \<noteq> 0"
    and h1: "Vector_inv (?st 0)" and h2: "Vector_inv (?st 1)" by simp_all
  note t1 = assign_copy_copies[OF h0 h1 h2, where T = T_plain and clk = 0]
  note t2 = assign_copy_copies[OF h0' h2 h1, where T = T_plain and clk = 0]
  note tot1 = t1[THEN conjunct2, THEN conjunct2, THEN conjunct2, rule_format]
  note tot2 = t2[THEN conjunct2, THEN conjunct2, THEN conjunct2, rule_format]
  from tot1[OF never_throws_T_plain] obtain c1 s1
    where r1: "assign_copy T_plain 0 1 (0, ?st) = Returns (c1, s1)" by (metis surj_pair)
  from tot2[OF never_throws_T_plain] obtain c2 s2
    where r2: "assign_copy T_plain 1 0 (0, ?st) = Returns (c2, s2)" by (metis surj_pair)
  note q1 = t1[THEN conjunct1, rule_format, OF r1]
  note q2 = t2[THEN conjunct1, rule_format, OF r2]
  have e1: "elements (s1 0) = [7, 8]" using q1[THEN conjunct2, THEN conjunct1] by simp
  have k1: "Capacity (s1 0) = 4"
    using q1[THEN conjunct2, THEN conjunct2, THEN conjunct2, THEN conjunct1] by simp
  have o1: "s1 1 = vec [7, 8] 2"
    using q1[THEN conjunct2, THEN conjunct2, THEN conjunct1, rule_format, of 1] by simp
  have e2: "elements (s2 1) = [1, 2, 3]" using q2[THEN conjunct2, THEN conjunct1] by simp
  have k2: "Capacity (s2 1) = 3"
    using q2[THEN conjunct2, THEN conjunct2, THEN conjunct2, THEN conjunct2, THEN conjunct1] by simp
  have o2: "s2 0 = vec [1, 2, 3] 4"
    using q2[THEN conjunct2, THEN conjunct2, THEN conjunct1, rule_format, of 0] by simp
  show ?thesis
    by (intro conjI exI[of _ c1] exI[of _ s1] exI[of _ c2] exI[of _ s2]
          h0 h1 h2 never_throws_T_plain r1 r2 e1 k1 o1 e2 k2 o2)
qed

text \<open>
  C9. Self-assignment is the identity: the copy assignment \<open>v = v\<close> returns with the
  store and the clock unchanged, and the move assignment \<open>v = std::move(v)\<close> leaves the
  store, and so the size, capacity and elements of \<open>v\<close>, unchanged.
\<close>

theorem self_assignment_identity:
  "assign_copy T a a (clk, st) = Returns (clk, st) \<and> assign_move a a st = st \<and>
   Size (assign_move a a st a) = Size (st a) \<and>
   Capacity (assign_move a a st a) = Capacity (st a) \<and>
   elements (assign_move a a st a) = elements (st a)"
  by (simp add: assign_copy.simps assign_move_def Swap_eq)

section \<open>Sequences of calls keep the invariant\<close>













end
